theory Spec2Isabelle
  imports Main "HOL-Library.Word"
begin

section \<open>Data model of the playground client (shared utilities)\<close>

text \<open>
  JSON values, as far as the playground looks at them. A JavaScript object is kept as
  an association list, so that the order of its keys is the order of insertion.
\<close>

datatype json =
    JNull
  | JBool bool
  | JNum int
  | JStr string
  | JArr "json list"
  | JObj "(string \<times> json) list"

text \<open>
  What a JavaScript \<^verbatim>\<open>throw\<close> (or a rejected promise) carries: an
  \<^verbatim>\<open>Error\<close> object with its message, or any other value.
\<close>

datatype js_error =
    Error string
  | Thrown json

text \<open>
  \<^verbatim>\<open>interface Session\<close>. The declared type of \<^verbatim>\<open>status\<close> is a union of
  six literals, but the value is whatever \<^verbatim>\<open>response.json()\<close> delivered, so the
  model keeps an arbitrary string.
\<close>

record Session =
  sessionId :: string
  status :: string
  presentation :: "(string \<times> json) list option"
  credentials :: "(string \<times> json) list list option"

text \<open>
  An \<^verbatim>\<open>onUpdate\<close> callback is a JavaScript closure: it may keep state between
  calls, so what it does is a function of the Sessions it has been called with before
  and of the Session passed now. It returns normally (\<open>None\<close>) or throws
  (\<open>Some e\<close>).
\<close>

type_synonym observer = "Session list \<Rightarrow> Session \<Rightarrow> js_error option"

text \<open>\<^verbatim>\<open>interface WaitOptions\<close>: every field is optional; times are in milliseconds.\<close>

record WaitOptions =
  onUpdate :: "observer option"
  timeout :: "int option"
  interval :: "int option"

section \<open>The environment of a poll\<close>

text \<open>
  \<^verbatim>\<open>waitForSession\<close> acts on its environment in four ways: it reads the clock
  (\<^verbatim>\<open>Date.now()\<close>), it fetches the session status (\<^verbatim>\<open>getSessionStatus\<close>), it
  calls the observer, and it sleeps (\<^verbatim>\<open>setTimeout\<close>). The environment is a script:
  the values the clock will show at its successive readings, and the outcomes of the
  successive status fetches (\<open>Inl\<close> when the fetch throws). The trace records the
  effects in the order in which they happened.
\<close>

datatype event =
    Fetch string "js_error + Session"
  | Update Session
  | Sleep int

record world =
  clock :: "int list"
  responses :: "(js_error + Session) list"
  trace :: "event list"

fun updates :: "event list \<Rightarrow> Session list" where
  "updates [] = []"
| "updates (Update s # es) = s # updates es"
| "updates (_ # es) = updates es"

fun fetches :: "event list \<Rightarrow> (js_error + Session) list" where
  "fetches [] = []"
| "fetches (Fetch _ r # es) = r # fetches es"
| "fetches (_ # es) = fetches es"

text \<open>\<^verbatim>\<open>Date.now()\<close>: the next reading of the script; \<open>None\<close> when the script has ended.\<close>

definition Date_now :: "world \<Rightarrow> (int \<times> world) option" where
  "Date_now w =
     (case clock w of
        [] \<Rightarrow> None
      | t # ts \<Rightarrow> Some (t, w\<lparr>clock := ts\<rparr>))"

text \<open>
  \<^verbatim>\<open>await getSessionStatus(sessionId)\<close>: the HTTP exchange with
  \<^verbatim>\<open>/api/session/:id\<close> is seen through its outcome, the parsed body (\<open>Inr\<close>) or
  the error thrown (\<open>Inl\<close>: the network failed, the response was not ok, or the body
  was not JSON). \<open>None\<close> when the script has ended: the fetch has not settled.
\<close>

definition getSessionStatus :: "string \<Rightarrow> world \<Rightarrow> ((js_error + Session) \<times> world) option" where
  "getSessionStatus sid w =
     (case responses w of
        [] \<Rightarrow> None
      | r # rs \<Rightarrow> Some (r, w\<lparr>responses := rs, trace := trace w @ [Fetch sid r]\<rparr>))"

text \<open>\<^verbatim>\<open>if (onUpdate) { onUpdate(session); }\<close>\<close>

definition call_onUpdate :: "observer option \<Rightarrow> Session \<Rightarrow> world \<Rightarrow> js_error option \<times> world" where
  "call_onUpdate cb session w =
     (case cb of
        None \<Rightarrow> (None, w)
      | Some f \<Rightarrow> (f (updates (trace w)) session, w\<lparr>trace := trace w @ [Update session]\<rparr>))"

text \<open>\<^verbatim>\<open>await new Promise((resolve) => setTimeout(resolve, interval))\<close>\<close>

definition sleep :: "int \<Rightarrow> world \<Rightarrow> world" where
  "sleep ms w = w\<lparr>trace := trace w @ [Sleep ms]\<rparr>"

section \<open>waitForSession\<close>

text \<open>
  The \<^verbatim>\<open>while\<close> loop of \<^verbatim>\<open>waitForSession\<close>. The result is the settled promise
  (\<open>Some (Inr session)\<close> resolved, \<open>Some (Inl e)\<close> rejected) and the world it leaves;
  \<open>None\<close> when the script ended before the promise settled. Every iteration reads
  the clock once, so the length of the clock script bounds the number of iterations.
\<close>

function waitForSession_loop ::
  "string \<Rightarrow> observer option \<Rightarrow> int \<Rightarrow> int \<Rightarrow> int \<Rightarrow> world \<Rightarrow> (js_error + Session) option \<times> world"
where
  "waitForSession_loop sid cb tmo itv startTime w =
     (case Date_now w of
        None \<Rightarrow> (None, w)
      | Some (now, w1) \<Rightarrow>
          if now - startTime < tmo then
            (case getSessionStatus sid w1 of
               None \<Rightarrow> (None, w1)
             | Some (Inl e, w2) \<Rightarrow> (Some (Inl e), w2)
             | Some (Inr session, w2) \<Rightarrow>
                 (case call_onUpdate cb session w2 of
                    (Some e, w3) \<Rightarrow> (Some (Inl e), w3)
                  | (None, w3) \<Rightarrow>
                      if status session = ''completed'' \<or> status session = ''fetched'' then
                        (Some (Inr session), w3)
                      else if status session = ''failed'' \<or> status session = ''expired'' then
                        (Some (Inl (Error (''Session '' @ status session))), w3)
                      else waitForSession_loop sid cb tmo itv startTime (sleep itv w3)))
          else (Some (Inl (Error ''Session timed out'')), w1))"
  by pat_completeness auto
termination
  by (relation "measure (\<lambda>(sid, cb, tmo, itv, startTime, w). length (clock w))")
     (auto simp: Date_now_def getSessionStatus_def call_onUpdate_def sleep_def
           split: list.splits option.splits)

text \<open>
  \<^verbatim>\<open>waitForSession(sessionId, options = {})\<close>: the defaults of the destructuring,
  the reading of \<^verbatim>\<open>startTime\<close>, then the loop.
\<close>

definition timeout_ms :: "WaitOptions \<Rightarrow> int" where
  "timeout_ms options = (case timeout options of None \<Rightarrow> 300000 | Some t \<Rightarrow> t)"

definition interval_ms :: "WaitOptions \<Rightarrow> int" where
  "interval_ms options = (case interval options of None \<Rightarrow> 1500 | Some i \<Rightarrow> i)"

definition waitForSession :: "string \<Rightarrow> WaitOptions \<Rightarrow> world \<Rightarrow> (js_error + Session) option \<times> world" where
  "waitForSession sid options w =
     (case Date_now w of
        None \<Rightarrow> (None, w)
      | Some (startTime, w0) \<Rightarrow>
          waitForSession_loop sid (onUpdate options) (timeout_ms options) (interval_ms options)
            startTime w0)"

section \<open>Vocabulary of the statements\<close>

text \<open>
  A Session is non-terminal when neither of the two tests of the loop body holds for
  its status: the loop sleeps and goes on.
\<close>

definition non_terminal :: "Session \<Rightarrow> bool" where
  "non_terminal s =
     (status s \<noteq> ''completed'' \<and> status s \<noteq> ''fetched'' \<and>
      status s \<noteq> ''failed'' \<and> status s \<noteq> ''expired'')"

text \<open>The event of the observer's call for a Session: none when there is no observer.\<close>

definition notify :: "observer option \<Rightarrow> Session \<Rightarrow> event list" where
  "notify cb s = (case cb of None \<Rightarrow> [] | Some f \<Rightarrow> [Update s])"

text \<open>
  The observer, called with the given Sessions one after the other after the calls
  \<open>hist\<close>, throws at none of them.
\<close>

fun quiet :: "observer option \<Rightarrow> Session list \<Rightarrow> Session list \<Rightarrow> bool" where
  "quiet None hist ss = True"
| "quiet (Some f) hist [] = True"
| "quiet (Some f) hist (s # ss) = (f hist s = None \<and> quiet (Some f) (hist @ [s]) ss)"

text \<open>
  The events of the iterations that fetch the given non-terminal Sessions: the fetch,
  the observer's call, the sleep.
\<close>

fun rounds :: "string \<Rightarrow> observer option \<Rightarrow> int \<Rightarrow> Session list \<Rightarrow> event list" where
  "rounds sid cb itv [] = []"
| "rounds sid cb itv (s # ss) = Fetch sid (Inr s) # notify cb s @ Sleep itv # rounds sid cb itv ss"

text \<open>The Sessions that the fetches of a trace delivered, in order.\<close>

fun fetched :: "event list \<Rightarrow> Session list" where
  "fetched [] = []"
| "fetched (Fetch _ (Inr s) # es) = s # fetched es"
| "fetched (_ # es) = fetched es"

section \<open>Sample inputs\<close>

text \<open>A Session of the given status, with no claims attached.\<close>

definition sample_session :: "string \<Rightarrow> Session" where
  "sample_session st = \<lparr>sessionId = ''4f2a'', status = st, presentation = None, credentials = None\<rparr>"

text \<open>A completed verification Session that carries a presentation.\<close>

definition verified_session :: Session where
  "verified_session =
     \<lparr>sessionId = ''4f2a'', status = ''completed'',
      presentation = Some [(''given_name'', JStr ''Ana'')], credentials = None\<rparr>"

text \<open>
  The observer of the demo pages: it sets the status badge for \<^verbatim>\<open>pending\<close> and
  \<^verbatim>\<open>processing\<close> and does nothing else; it never throws.
\<close>

definition badge_observer :: observer where
  "badge_observer hist s = None"

text \<open>An observer that throws at every call.\<close>

definition failing_observer :: observer where
  "failing_observer hist s = Some (Error ''render failed'')"

text \<open>An observer that throws when the status is none of the six known values.\<close>

definition strict_observer :: observer where
  "strict_observer hist s =
     (if status s \<in> {''pending'', ''processing'', ''completed'', ''fetched'', ''failed'', ''expired''}
      then None
      else Some (Error (''unexpected status '' @ status s)))"

section \<open>The session-status endpoint of the server\<close>

text \<open>What an Express handler sends: the status code and the JSON body.\<close>

record http_response =
  code :: nat
  body :: json

text \<open>
  \<^verbatim>\<open>value.key\<close> in JavaScript, for a value that came from JSON and a key that no
  prototype defines (the handler reads \<^verbatim>\<open>status\<close> and \<^verbatim>\<open>credentials\<close>). On
  \<^verbatim>\<open>null\<close> the read throws a \<^verbatim>\<open>TypeError\<close> (\<open>Inl\<close>, with the message that Node
  gives it); on an object it is the property, or \<^verbatim>\<open>undefined\<close> (\<open>None\<close>) when the
  object has none of that name; on a number, a string, a boolean or an array it is
  \<^verbatim>\<open>undefined\<close>.
\<close>

definition read_property :: "json \<Rightarrow> string \<Rightarrow> string + json option" where
  "read_property v k =
     (case v of
        JNull \<Rightarrow>
          Inl (''Cannot read properties of null (reading '' @ CHR 0x27 # k @ [CHR 0x27, CHR '')''])
      | JObj props \<Rightarrow> Inr (map_of props k)
      | _ \<Rightarrow> Inr None)"

text \<open>
  An object literal passed to \<^verbatim>\<open>res.json\<close>: the body is its \<^verbatim>\<open>JSON.stringify\<close>,
  which leaves out every property whose value is \<^verbatim>\<open>undefined\<close>.
\<close>

definition object_literal :: "(string \<times> json option) list \<Rightarrow> json" where
  "object_literal props = JObj (List.map_filter (\<lambda>(k, v). map_option (Pair k) v) props)"

text \<open>
  The \<^verbatim>\<open>catch\<close> branch of the handler, for an error with the given message:
  \<^verbatim>\<open>res.status(500).json({ error: error.message || 'Internal Server Error' })\<close>.
\<close>

definition send_error :: "string \<Rightarrow> http_response" where
  "send_error message =
     \<lparr>code = 500,
      body = object_literal
        [(''error'', Some (JStr (if message = [] then ''Internal Server Error'' else message)))]\<rparr>"

text \<open>
  The handler of \<^verbatim>\<open>GET /api/session/:id\<close>. Its argument is the outcome of
  \<^verbatim>\<open>await client.getSession(sessionId)\<close>, a call into the SDK: the value it resolved
  with (\<open>Inr\<close>), or the message of the error it threw (\<open>Inl\<close>). The \<^verbatim>\<open>try\<close> block
  reads \<^verbatim>\<open>session.status\<close>, then \<^verbatim>\<open>session.credentials\<close>, and sends the two with
  status 200; an error thrown by the lookup or by one of the two reads goes to the
  \<^verbatim>\<open>catch\<close> branch.
\<close>

definition get_api_session :: "string + json \<Rightarrow> http_response" where
  "get_api_session lookup =
     (case lookup of
        Inl message \<Rightarrow> send_error message
      | Inr session \<Rightarrow>
          (case read_property session ''status'' of
             Inl message \<Rightarrow> send_error message
           | Inr st \<Rightarrow>
               (case read_property session ''credentials'' of
                  Inl message \<Rightarrow> send_error message
                | Inr creds \<Rightarrow>
                    \<lparr>code = 200,
                     body = object_literal [(''status'', st), (''credentials'', creds)]\<rparr>)))"

text \<open>
  For the statements about a body: the member of the given name in a JSON text, \<open>None\<close>
  when the text has no such member or is not an object.
\<close>

fun json_member :: "json \<Rightarrow> string \<Rightarrow> json option" where
  "json_member (JObj props) k = map_of props k"
| "json_member _ k = None"

section \<open>Strings of the browser\<close>

text \<open>
  \<^verbatim>\<open>buildRedirectUrl\<close> and \<^verbatim>\<open>getSessionFromUrl\<close> are a few calls into the
  \<^verbatim>\<open>URL\<close> and \<^verbatim>\<open>URLSearchParams\<close> interfaces of the browser. What these calls do is
  laid down in the URL standard, the Encoding standard and Web IDL; the definitions of
  this section and of the next three follow the algorithms of these standards, for the
  calls that the two functions make.

  A JavaScript string is a sequence of 16-bit code units. The URL interfaces take and
  give scalar value strings: sequences of Unicode scalar values, here natural numbers.
\<close>

type_synonym js_string = "16 word list"

definition is_lead :: "16 word \<Rightarrow> bool" where
  "is_lead c = (0xD800 \<le> c \<and> c \<le> 0xDBFF)"

definition is_trail :: "16 word \<Rightarrow> bool" where
  "is_trail c = (0xDC00 \<le> c \<and> c \<le> 0xDFFF)"

text \<open>
  Conversion of a JavaScript string to a scalar value string, as done on every
  argument of the URL interfaces: a lead surrogate followed by a trail surrogate is one
  scalar value, any other surrogate becomes U+FFFD.
\<close>

fun to_usv :: "js_string \<Rightarrow> nat list" where
  "to_usv [] = []"
| "to_usv (c # cs) =
     (if is_lead c then
        (case cs of
           [] \<Rightarrow> [0xFFFD]
         | d # ds \<Rightarrow>
             if is_trail d then
               (0x10000 + 0x400 * (unat c mod 0x400) + unat d mod 0x400) # to_usv ds
             else 0xFFFD # to_usv cs)
      else if is_trail c then 0xFFFD # to_usv cs
      else unat c # to_usv cs)"

text \<open>The code units of a scalar value, and of a scalar value string.\<close>

definition utf16_units :: "nat \<Rightarrow> js_string" where
  "utf16_units cp =
     (if cp \<le> 0xFFFF then [word_of_nat cp]
      else [word_of_nat ((cp - 0x10000) div 0x400 + 0xD800),
            word_of_nat ((cp - 0x10000) mod 0x400 + 0xDC00)])"

definition from_usv :: "nat list \<Rightarrow> js_string" where
  "from_usv cps = concat (map utf16_units cps)"

text \<open>The ASCII text of the source, as a scalar value string.\<close>

definition usv :: "string \<Rightarrow> nat list" where
  "usv cs = map of_char cs"

text \<open>\<^verbatim>\<open>String.prototype.isWellFormed\<close>: no surrogate stands alone.\<close>

fun well_formed :: "js_string \<Rightarrow> bool" where
  "well_formed [] = True"
| "well_formed (c # cs) =
     (if is_lead c then
        (case cs of
           [] \<Rightarrow> False
         | d # ds \<Rightarrow> is_trail d \<and> well_formed ds)
      else \<not> is_trail c \<and> well_formed cs)"

section \<open>UTF-8\<close>

text \<open>The UTF-8 encoder of the Encoding standard; a byte is a \<^typ>\<open>char\<close>.\<close>

definition utf8_bytes :: "nat \<Rightarrow> string" where
  "utf8_bytes cp =
     (if cp \<le> 0x7F then [char_of cp]
      else if cp \<le> 0x7FF then [char_of (0xC0 + cp div 64), char_of (0x80 + cp mod 64)]
      else if cp \<le> 0xFFFF then
        [char_of (0xE0 + cp div 4096), char_of (0x80 + cp div 64 mod 64),
         char_of (0x80 + cp mod 64)]
      else
        [char_of (0xF0 + cp div 262144), char_of (0x80 + cp div 4096 mod 64),
         char_of (0x80 + cp div 64 mod 64), char_of (0x80 + cp mod 64)])"

definition utf8_encode :: "nat list \<Rightarrow> string" where
  "utf8_encode cps = concat (map utf8_bytes cps)"

text \<open>
  The UTF-8 decoder of the Encoding standard, in replacement mode (``UTF-8 decode
  without BOM''). Its state: the code point under construction, the bytes seen and
  needed, and the bounds of the next continuation byte. A byte that does not continue
  the sequence is put back and read again from the initial state.
\<close>

function utf8_decoder :: "nat \<Rightarrow> nat \<Rightarrow> nat \<Rightarrow> nat \<Rightarrow> nat \<Rightarrow> string \<Rightarrow> nat list" where
  "utf8_decoder cp seen needed lower upper [] = (if needed \<noteq> 0 then [0xFFFD] else [])"
| "utf8_decoder cp seen needed lower upper (c # cs) =
     (let b = of_char c in
      if needed = 0 then
        (if b \<le> 0x7F then b # utf8_decoder 0 0 0 0x80 0xBF cs
         else if 0xC2 \<le> b \<and> b \<le> 0xDF then utf8_decoder (b mod 32) 0 1 0x80 0xBF cs
         else if 0xE0 \<le> b \<and> b \<le> 0xEF then
           utf8_decoder (b mod 16) 0 2 (if b = 0xE0 then 0xA0 else 0x80)
             (if b = 0xED then 0x9F else 0xBF) cs
         else if 0xF0 \<le> b \<and> b \<le> 0xF4 then
           utf8_decoder (b mod 8) 0 3 (if b = 0xF0 then 0x90 else 0x80)
             (if b = 0xF4 then 0x8F else 0xBF) cs
         else 0xFFFD # utf8_decoder 0 0 0 0x80 0xBF cs)
      else if b < lower \<or> upper < b then 0xFFFD # utf8_decoder 0 0 0 0x80 0xBF (c # cs)
      else if seen + 1 \<noteq> needed then
        utf8_decoder (cp * 64 + b mod 64) (seen + 1) needed 0x80 0xBF cs
      else (cp * 64 + b mod 64) # utf8_decoder 0 0 0 0x80 0xBF cs)"
  by pat_completeness auto
termination
  by (relation "measure (\<lambda>(cp, seen, needed, lower, upper, bs).
        2 * length bs + (if needed = 0 then 0 else 1))")
     auto

definition utf8_decode :: "string \<Rightarrow> nat list" where
  "utf8_decode bs = utf8_decoder 0 0 0 0x80 0xBF bs"

section \<open>The application/x-www-form-urlencoded format\<close>

definition alphanumeric :: "char \<Rightarrow> bool" where
  "alphanumeric c =
     (let n = (of_char c :: nat)
      in (0x30 \<le> n \<and> n \<le> 0x39) \<or> (0x41 \<le> n \<and> n \<le> 0x5A) \<or> (0x61 \<le> n \<and> n \<le> 0x7A))"

text \<open>
  The bytes outside the application/x-www-form-urlencoded percent-encode set: the ASCII
  alphanumerics and \<^verbatim>\<open>* - . _\<close>.
\<close>

definition unreserved :: "char \<Rightarrow> bool" where
  "unreserved c = (alphanumeric c \<or> c = CHR ''*'' \<or> c = CHR ''-'' \<or> c = CHR ''.'' \<or> c = CHR ''_'')"

definition hex_digit :: "nat \<Rightarrow> char" where
  "hex_digit n = (if n < 10 then char_of (0x30 + n) else char_of (0x37 + n))"

definition hex_value :: "char \<Rightarrow> nat option" where
  "hex_value c =
     (let n = (of_char c :: nat)
      in if 0x30 \<le> n \<and> n \<le> 0x39 then Some (n - 0x30)
         else if 0x41 \<le> n \<and> n \<le> 0x46 then Some (n - 0x37)
         else if 0x61 \<le> n \<and> n \<le> 0x66 then Some (n - 0x57)
         else None)"

definition percent_encode :: "char \<Rightarrow> string" where
  "percent_encode b = [CHR ''%'', hex_digit (of_char b div 16), hex_digit (of_char b mod 16)]"

text \<open>
  One byte of a name or value, as the serializer writes it (``percent-encode after
  encoding'' with space as plus).
\<close>

definition urlencoded_byte :: "char \<Rightarrow> string" where
  "urlencoded_byte b =
     (if b = CHR '' '' then ''+''
      else if unreserved b then [b]
      else percent_encode b)"

definition urlencoded_string :: "nat list \<Rightarrow> string" where
  "urlencoded_string s = concat (map urlencoded_byte (utf8_encode s))"

text \<open>The application/x-www-form-urlencoded serializer.\<close>

fun urlencoded_serialize :: "(nat list \<times> nat list) list \<Rightarrow> string" where
  "urlencoded_serialize [] = []"
| "urlencoded_serialize [(n, v)] = urlencoded_string n @ ''='' @ urlencoded_string v"
| "urlencoded_serialize ((n, v) # ps) =
     urlencoded_string n @ ''='' @ urlencoded_string v @ ''&'' @ urlencoded_serialize ps"

text \<open>Percent-decoding of a byte sequence.\<close>

fun percent_decode :: "string \<Rightarrow> string" where
  "percent_decode [] = []"
| "percent_decode (c # cs) =
     (if c = CHR ''%'' then
        (case cs of
           h # l # rest \<Rightarrow>
             (case (hex_value h, hex_value l) of
                (Some a, Some b) \<Rightarrow> char_of (a * 16 + b) # percent_decode rest
              | _ \<Rightarrow> c # percent_decode cs)
         | _ \<Rightarrow> c # percent_decode cs)
      else c # percent_decode cs)"

fun split_on :: "char \<Rightarrow> string \<Rightarrow> string list" where
  "split_on sep [] = [[]]"
| "split_on sep (c # cs) =
     (if c = sep then [] # split_on sep cs
      else (case split_on sep cs of
              [] \<Rightarrow> [[c]]
            | x # xs \<Rightarrow> (c # x) # xs))"

definition decode_component :: "string \<Rightarrow> nat list" where
  "decode_component bs =
     utf8_decode (percent_decode (map (\<lambda>c. if c = CHR ''+'' then CHR '' '' else c) bs))"

text \<open>
  The application/x-www-form-urlencoded parser: the input is split at every
  \<^verbatim>\<open>&\<close>, empty sequences are skipped, each sequence is split at its first \<^verbatim>\<open>=\<close>.
\<close>

definition urlencoded_parse :: "string \<Rightarrow> (nat list \<times> nat list) list" where
  "urlencoded_parse input =
     map (\<lambda>bs. (decode_component (takeWhile (\<lambda>c. c \<noteq> CHR ''='') bs),
                decode_component (drop 1 (dropWhile (\<lambda>c. c \<noteq> CHR ''='') bs))))
       (filter (\<lambda>bs. bs \<noteq> []) (split_on CHR ''&'' input))"

section \<open>URL records and the URL interfaces\<close>

text \<open>
  A URL record, as far as the functions below look at it: the serialization of
  everything before the query (scheme, authority, path), the query and the fragment,
  each of the two absent (\<open>None\<close>) or present.
\<close>

record url =
  base :: string
  query :: "string option"
  fragment :: "string option"

text \<open>The URL serializer (\<^verbatim>\<open>href\<close>, \<^verbatim>\<open>toString()\<close>).\<close>

definition href :: "url \<Rightarrow> string" where
  "href u =
     base u @ (case query u of None \<Rightarrow> [] | Some q \<Rightarrow> CHR ''?'' # q) @
     (case fragment u of None \<Rightarrow> [] | Some f \<Rightarrow> CHR ''#'' # f)"

text \<open>The \<^verbatim>\<open>search\<close> getter.\<close>

definition search :: "url \<Rightarrow> string" where
  "search u = (case query u of None \<Rightarrow> [] | Some q \<Rightarrow> if q = [] then [] else CHR ''?'' # q)"

text \<open>
  The query state of the URL parser percent-encodes the bytes of the special-query
  percent-encode set and copies the others.
\<close>

definition special_query_set :: "char \<Rightarrow> bool" where
  "special_query_set c =
     ((of_char c :: nat) \<le> 0x1F \<or> 0x7E < (of_char c :: nat) \<or> c = CHR '' '' \<or> c = CHR 0x22 \<or>
      c = CHR ''#'' \<or> c = CHR ''<'' \<or> c = CHR ''>'' \<or> c = CHR 0x27)"

definition query_encode :: "string \<Rightarrow> string" where
  "query_encode q = concat (map (\<lambda>c. if special_query_set c then percent_encode c else [c]) q)"

text \<open>
  The URL parser on an \<^verbatim>\<open>href\<close>, that is, what \<^verbatim>\<open>location\<close> is once the browser has
  gone to that address: the fragment starts after the first \<^verbatim>\<open>#\<close>, the query after
  the first \<^verbatim>\<open>?\<close> before it. The part before the query and the fragment are kept as
  they are written.
\<close>

definition parse_url :: "string \<Rightarrow> url" where
  "parse_url input =
     (let front = takeWhile (\<lambda>c. c \<noteq> CHR ''#'') input;
          rest = dropWhile (\<lambda>c. c \<noteq> CHR ''#'') input;
          qpart = dropWhile (\<lambda>c. c \<noteq> CHR ''?'') front
      in \<lparr>base = takeWhile (\<lambda>c. c \<noteq> CHR ''?'') front,
          query = (if qpart = [] then None else Some (query_encode (tl qpart))),
          fragment = (if rest = [] then None else Some (tl rest))\<rparr>)"

text \<open>
  A \<^verbatim>\<open>URL\<close> object: its URL record and the list of its \<^verbatim>\<open>searchParams\<close> object.
\<close>

record URL =
  record_of :: url
  searchParams :: "(nat list \<times> nat list) list"

text \<open>
  \<^verbatim>\<open>new URL(globalThis.location.href)\<close>: the record of the location (parsing the
  serialization of a URL record gives the record back), with the list parsed from
  its query.
\<close>

definition new_URL :: "url \<Rightarrow> URL" where
  "new_URL location =
     \<lparr>record_of = location,
      searchParams = (case query location of None \<Rightarrow> [] | Some q \<Rightarrow> urlencoded_parse q)\<rparr>"

text \<open>
  \<^verbatim>\<open>url.search = ''\<close>: the query becomes null and the list is emptied. (The pages
  are served over http or https, so the path is not opaque and is left as it is.)
\<close>

definition clear_search :: "URL \<Rightarrow> URL" where
  "clear_search u = \<lparr>record_of = (record_of u)\<lparr>query := None\<rparr>, searchParams = []\<rparr>"

text \<open>
  \<^verbatim>\<open>url.searchParams.set(name, value)\<close>: the first tuple of that name takes the
  value and the other tuples of that name are removed, or the tuple is appended; then
  the query of the URL is set to the serialization of the list.
\<close>

fun set_tuple :: "nat list \<Rightarrow> nat list \<Rightarrow> (nat list \<times> nat list) list \<Rightarrow> (nat list \<times> nat list) list" where
  "set_tuple n v [] = [(n, v)]"
| "set_tuple n v ((k, x) # ps) =
     (if k = n then (n, v) # filter (\<lambda>p. fst p \<noteq> n) ps else (k, x) # set_tuple n v ps)"

definition searchParams_set :: "nat list \<Rightarrow> nat list \<Rightarrow> URL \<Rightarrow> URL" where
  "searchParams_set n v u =
     (let ps = set_tuple n v (searchParams u);
          serialized = urlencoded_serialize ps
      in \<lparr>record_of = (record_of u)\<lparr>query := (if serialized = [] then None else Some serialized)\<rparr>,
          searchParams = ps\<rparr>)"

text \<open>\<^verbatim>\<open>new URLSearchParams(init)\<close> for a string: a leading \<^verbatim>\<open>?\<close> is dropped.\<close>

definition new_URLSearchParams :: "string \<Rightarrow> (nat list \<times> nat list) list" where
  "new_URLSearchParams init =
     urlencoded_parse (case init of [] \<Rightarrow> [] | c # cs \<Rightarrow> if c = CHR ''?'' then cs else init)"

section \<open>buildRedirectUrl and getSessionFromUrl\<close>

text \<open>
  \<^verbatim>\<open>buildRedirectUrl(sessionId)\<close>: a \<^verbatim>\<open>URL\<close> object for the address of the page, its
  search cleared, the parameter \<^verbatim>\<open>session\<close> set, and the result of
  \<^verbatim>\<open>toString()\<close>. The location of the page is an argument of the model.
\<close>

definition buildRedirectUrl :: "url \<Rightarrow> js_string \<Rightarrow> string" where
  "buildRedirectUrl location sid =
     (let u = new_URL location;
          u = clear_search u;
          u = searchParams_set (usv ''session'') (to_usv sid) u
      in href (record_of u))"

text \<open>
  \<^verbatim>\<open>getSessionFromUrl()\<close>: \<^verbatim>\<open>new URLSearchParams(globalThis.location.search)\<close>
  and \<^verbatim>\<open>params.get('session')\<close>; \<open>None\<close> is \<^verbatim>\<open>null\<close>.
\<close>

definition getSessionFromUrl :: "url \<Rightarrow> js_string option" where
  "getSessionFromUrl location =
     (let params = new_URLSearchParams (search location)
      in map_option from_usv (map_of params (usv ''session'')))"

section \<open>Vocabulary of the lemmas about the redirect URL\<close>

text \<open>A Unicode scalar value: a code point that is not a surrogate.\<close>

definition scalar :: "nat \<Rightarrow> bool" where
  "scalar cp = (cp < 0x110000 \<and> \<not> (0xD800 \<le> cp \<and> cp \<le> 0xDFFF))"

text \<open>The characters that the serializer writes for the bytes of a name or value.\<close>

definition safe :: "char \<Rightarrow> bool" where
  "safe c = (unreserved c \<or> c = CHR ''+'' \<or> c = CHR ''%'')"

section \<open>Lemmas about the loop\<close>

declare waitForSession_loop.simps [simp del]

lemma updates_append: "updates (es @ fs) = updates es @ updates fs"
  by (induction es rule: updates.induct) simp_all

lemma fetches_append: "fetches (es @ fs) = fetches es @ fetches fs"
  by (induction es rule: fetches.induct) simp_all

lemma fetched_append: "fetched (es @ fs) = fetched es @ fetched fs"
  by (induction es rule: fetched.induct) simp_all

lemma updates_notify: "updates (notify cb s) = (case cb of None \<Rightarrow> [] | Some f \<Rightarrow> [s])"
  by (simp add: notify_def split: option.splits)

lemma loop_timeout:
  assumes "clock w = t # cl" and "\<not> t - st < tmo"
  shows "waitForSession_loop sid cb tmo itv st w =
           (Some (Inl (Error ''Session timed out'')), w\<lparr>clock := cl\<rparr>)"
  using assms by (simp add: waitForSession_loop.simps [of sid cb tmo itv st w] Date_now_def)

lemma loop_fetch_error:
  assumes "clock w = t # cl" and "t - st < tmo" and "responses w = Inl e # rs"
  shows "waitForSession_loop sid cb tmo itv st w =
           (Some (Inl e), w\<lparr>clock := cl, responses := rs, trace := trace w @ [Fetch sid (Inl e)]\<rparr>)"
  using assms
  by (simp add: waitForSession_loop.simps [of sid cb tmo itv st w] Date_now_def getSessionStatus_def)

lemma loop_observer_throws:
  assumes "clock w = t # cl" and "t - st < tmo" and "responses w = Inr s # rs"
    and "f (updates (trace w)) s = Some e"
  shows "waitForSession_loop sid (Some f) tmo itv st w =
           (Some (Inl e), w\<lparr>clock := cl, responses := rs,
              trace := trace w @ [Fetch sid (Inr s), Update s]\<rparr>)"
  using assms
  by (simp add: waitForSession_loop.simps [of sid "Some f" tmo itv st w] Date_now_def
      getSessionStatus_def call_onUpdate_def updates_append)

lemma loop_session:
  assumes "clock w = t # cl" and "t - st < tmo" and "responses w = Inr s # rs"
    and "quiet cb (updates (trace w)) [s]"
  shows "waitForSession_loop sid cb tmo itv st w =
           (let w3 = w\<lparr>clock := cl, responses := rs,
                       trace := trace w @ Fetch sid (Inr s) # notify cb s\<rparr>
            in if status s = ''completed'' \<or> status s = ''fetched'' then (Some (Inr s), w3)
               else if status s = ''failed'' \<or> status s = ''expired'' then
                 (Some (Inl (Error (''Session '' @ status s))), w3)
               else waitForSession_loop sid cb tmo itv st (sleep itv w3))"
proof (cases cb)
  case None
  with assms show ?thesis
    by (simp add: waitForSession_loop.simps [of sid _ tmo itv st w] Date_now_def
        getSessionStatus_def call_onUpdate_def notify_def)
next
  case (Some f)
  with assms show ?thesis
    by (simp add: waitForSession_loop.simps [of sid _ tmo itv st w] Date_now_def
        getSessionStatus_def call_onUpdate_def notify_def updates_append)
qed

lemma quiet_Cons:
  "quiet cb hist (s # ss) = (quiet cb hist [s] \<and> quiet cb (hist @ updates (notify cb s)) ss)"
  by (cases cb) (simp_all add: notify_def)

lemma quiet_append:
  "quiet cb hist (ss @ us) =
     (quiet cb hist ss \<and> quiet cb (hist @ updates (rounds sid cb itv ss)) us)"
proof (induction ss arbitrary: hist)
  case Nil
  show ?case by (cases cb) simp_all
next
  case (Cons s ss)
  show ?case
  proof (cases cb)
    case None
    then show ?thesis by simp
  next
    case (Some f)
    with Cons [of "hist @ [s]"] show ?thesis
      by (simp add: notify_def)
  qed
qed

lemma loop_rounds:
  assumes "clock w = ts @ cl" and "length ts = length pre"
    and "\<forall>t\<in>set ts. t - st < tmo"
    and "responses w = map Inr pre @ rs"
    and "\<forall>p\<in>set pre. non_terminal p"
    and "quiet cb (updates (trace w)) pre"
  shows "waitForSession_loop sid cb tmo itv st w =
           waitForSession_loop sid cb tmo itv st
             (w\<lparr>clock := cl, responses := rs, trace := trace w @ rounds sid cb itv pre\<rparr>)"
  using assms
proof (induction pre arbitrary: w ts)
  case Nil
  then have "cl = clock w" and "rs = responses w"
    by simp_all
  then show ?case
    by simp
next
  case (Cons p pre)
  from Cons.prems(2) obtain t ts' where ts: "ts = t # ts'" and len: "length ts' = length pre"
    by (cases ts) auto
  let ?w3 = "w\<lparr>clock := ts' @ cl, responses := map Inr pre @ rs,
                 trace := trace w @ Fetch sid (Inr p) # notify cb p\<rparr>"
  from Cons.prems(6) have q1: "quiet cb (updates (trace w)) [p]"
    and q2: "quiet cb (updates (trace w) @ updates (notify cb p)) pre"
    by (simp_all add: quiet_Cons [of cb _ p pre])
  have "waitForSession_loop sid cb tmo itv st w =
          waitForSession_loop sid cb tmo itv st (sleep itv ?w3)"
    using Cons.prems(1,3,4,5) ts q1
    by (simp add: loop_session [of w t "ts' @ cl" st tmo p "map Inr pre @ rs" cb] non_terminal_def)
  also have "\<dots> = waitForSession_loop sid cb tmo itv st
      ((sleep itv ?w3)\<lparr>clock := cl, responses := rs,
          trace := trace (sleep itv ?w3) @ rounds sid cb itv pre\<rparr>)"
    using Cons.prems(3,5) ts len q2
    by (intro Cons.IH [of "sleep itv ?w3" ts']) (simp_all add: sleep_def updates_append)
  finally show ?case
    by (simp add: sleep_def)
qed


lemma poll_rounds:
  assumes "clock w = start # ts @ cl" and "length ts = length pre"
    and "\<forall>t\<in>set ts. t - start < timeout_ms options"
    and "responses w = map Inr pre @ rs"
    and "\<forall>p\<in>set pre. non_terminal p"
    and "quiet (onUpdate options) (updates (trace w)) pre"
  shows "waitForSession sid options w =
           waitForSession_loop sid (onUpdate options) (timeout_ms options) (interval_ms options) start
             (w\<lparr>clock := cl, responses := rs,
                trace := trace w @ rounds sid (onUpdate options) (interval_ms options) pre\<rparr>)"
proof -
  have "waitForSession sid options w =
          waitForSession_loop sid (onUpdate options) (timeout_ms options) (interval_ms options) start
            (w\<lparr>clock := ts @ cl\<rparr>)"
    using assms(1) by (simp add: waitForSession_def Date_now_def)
  also have "\<dots> =
          waitForSession_loop sid (onUpdate options) (timeout_ms options) (interval_ms options) start
            ((w\<lparr>clock := ts @ cl\<rparr>)\<lparr>clock := cl, responses := rs,
                trace := trace (w\<lparr>clock := ts @ cl\<rparr>) @
                  rounds sid (onUpdate options) (interval_ms options) pre\<rparr>)"
    using assms(2-6) by (intro loop_rounds [of _ ts]) simp_all
  finally show ?thesis
    by simp
qed

lemma poll_settles:
  assumes "clock w = start # ts @ cl" and "length ts = Suc (length pre)"
    and "\<forall>t\<in>set ts. t - start < timeout_ms options"
    and "responses w = map Inr pre @ Inr s # rs"
    and "\<forall>p\<in>set pre. non_terminal p"
    and "quiet (onUpdate options) (updates (trace w)) (pre @ [s])"
    and "\<not> non_terminal s"
  shows "waitForSession sid options w =
           ((if status s = ''completed'' \<or> status s = ''fetched'' then Some (Inr s)
             else Some (Inl (Error (''Session '' @ status s)))),
            w\<lparr>clock := cl, responses := rs,
              trace := trace w @ rounds sid (onUpdate options) (interval_ms options) pre @
                Fetch sid (Inr s) # notify (onUpdate options) s\<rparr>)"
proof -
  from assms(2) obtain ts' t where ts: "ts = ts' @ [t]" and len: "length ts' = length pre"
    by (cases ts rule: rev_cases) auto
  let ?w = "w\<lparr>clock := t # cl, responses := Inr s # rs,
                trace := trace w @ rounds sid (onUpdate options) (interval_ms options) pre\<rparr>"
  from assms(6) have q1: "quiet (onUpdate options) (updates (trace w)) pre"
    and q2: "quiet (onUpdate options) (updates (trace ?w)) [s]"
    by (simp_all add: quiet_append [of _ _ pre "[s]" sid "interval_ms options"] updates_append)
  have "waitForSession sid options w =
          waitForSession_loop sid (onUpdate options) (timeout_ms options) (interval_ms options) start ?w"
    using assms(1,3,4,5) ts len q1
    by (intro poll_rounds [of w start ts' "t # cl" pre options "Inr s # rs" sid]) simp_all
  also have "\<dots> =
      ((if status s = ''completed'' \<or> status s = ''fetched'' then Some (Inr s)
        else Some (Inl (Error (''Session '' @ status s)))),
       w\<lparr>clock := cl, responses := rs,
         trace := trace w @ rounds sid (onUpdate options) (interval_ms options) pre @
           Fetch sid (Inr s) # notify (onUpdate options) s\<rparr>)"
    using assms(3,7) ts q2
    by (auto simp add: loop_session [of ?w t cl start _ s rs] non_terminal_def Let_def)
  finally show ?thesis .
qed

lemma poll_times_out:
  assumes "clock w = start # ts @ t # cl" and "length ts = length pre"
    and "\<forall>t\<in>set ts. t - start < timeout_ms options"
    and "timeout_ms options \<le> t - start"
    and "responses w = map Inr pre @ rs"
    and "\<forall>p\<in>set pre. non_terminal p"
    and "quiet (onUpdate options) (updates (trace w)) pre"
  shows "waitForSession sid options w =
           (Some (Inl (Error ''Session timed out'')),
            w\<lparr>clock := cl, responses := rs,
              trace := trace w @ rounds sid (onUpdate options) (interval_ms options) pre\<rparr>)"
proof -
  let ?w = "w\<lparr>clock := t # cl, responses := rs,
                trace := trace w @ rounds sid (onUpdate options) (interval_ms options) pre\<rparr>"
  have "waitForSession sid options w =
          waitForSession_loop sid (onUpdate options) (timeout_ms options) (interval_ms options) start ?w"
    using assms(1,2,3,5,6,7)
    by (intro poll_rounds [of w start ts "t # cl" pre options rs sid]) simp_all
  also have "\<dots> = (Some (Inl (Error ''Session timed out'')), ?w\<lparr>clock := cl\<rparr>)"
    using assms(4) by (intro loop_timeout [of ?w t cl]) simp_all
  finally show ?thesis
    by simp
qed

lemma poll_fetch_error:
  assumes "clock w = start # ts @ cl" and "length ts = Suc (length pre)"
    and "\<forall>t\<in>set ts. t - start < timeout_ms options"
    and "responses w = map Inr pre @ Inl e # rs"
    and "\<forall>p\<in>set pre. non_terminal p"
    and "quiet (onUpdate options) (updates (trace w)) pre"
  shows "waitForSession sid options w =
           (Some (Inl e),
            w\<lparr>clock := cl, responses := rs,
              trace := trace w @ rounds sid (onUpdate options) (interval_ms options) pre @
                [Fetch sid (Inl e)]\<rparr>)"
proof -
  from assms(2) obtain ts' t where ts: "ts = ts' @ [t]" and len: "length ts' = length pre"
    by (cases ts rule: rev_cases) auto
  let ?w = "w\<lparr>clock := t # cl, responses := Inl e # rs,
                trace := trace w @ rounds sid (onUpdate options) (interval_ms options) pre\<rparr>"
  have "waitForSession sid options w =
          waitForSession_loop sid (onUpdate options) (timeout_ms options) (interval_ms options) start ?w"
    using assms(1,3,4,5,6) ts len
    by (intro poll_rounds [of w start ts' "t # cl" pre options "Inl e # rs" sid]) simp_all
  also have "\<dots> = (Some (Inl e), ?w\<lparr>clock := cl, responses := rs,
      trace := trace ?w @ [Fetch sid (Inl e)]\<rparr>)"
    using assms(3) ts by (intro loop_fetch_error [of ?w t cl]) simp_all
  finally show ?thesis
    by simp
qed

lemma poll_observer_throws:
  assumes "clock w = start # ts @ cl" and "length ts = Suc (length pre)"
    and "\<forall>t\<in>set ts. t - start < timeout_ms options"
    and "responses w = map Inr pre @ Inr s # rs"
    and "\<forall>p\<in>set pre. non_terminal p"
    and "onUpdate options = Some f"
    and "quiet (Some f) (updates (trace w)) pre"
    and "f (updates (trace w) @ pre) s = Some e"
  shows "waitForSession sid options w =
           (Some (Inl e),
            w\<lparr>clock := cl, responses := rs,
              trace := trace w @ rounds sid (Some f) (interval_ms options) pre @
                [Fetch sid (Inr s), Update s]\<rparr>)"
proof -
  from assms(2) obtain ts' t where ts: "ts = ts' @ [t]" and len: "length ts' = length pre"
    by (cases ts rule: rev_cases) auto
  let ?w = "w\<lparr>clock := t # cl, responses := Inr s # rs,
                trace := trace w @ rounds sid (Some f) (interval_ms options) pre\<rparr>"
  have u: "updates (rounds sid (Some f) itv ss) = ss" for itv ss
    by (induction ss) (simp_all add: notify_def)
  have "waitForSession sid options w =
          waitForSession_loop sid (Some f) (timeout_ms options) (interval_ms options) start ?w"
    using assms(1,3,4,5,7) ts len poll_rounds [of w start ts' "t # cl" pre options "Inr s # rs" sid]
    by (simp add: assms(6))
  also have "\<dots> = (Some (Inl e), ?w\<lparr>clock := cl, responses := rs,
      trace := trace ?w @ [Fetch sid (Inr s), Update s]\<rparr>)"
    using assms(3,8) ts by (intro loop_observer_throws [of ?w t cl]) (simp_all add: updates_append u)
  finally show ?thesis
    by simp
qed

lemma fetches_rounds: "fetches (rounds sid cb itv ss) = map Inr ss"
  by (induction ss) (simp_all add: notify_def fetches_append split: option.splits)

lemma fetches_notify: "fetches (notify cb s) = []"
  by (simp add: notify_def split: option.splits)

lemma updates_rounds_Some: "updates (rounds sid (Some f) itv ss) = ss"
  by (induction ss) (simp_all add: notify_def)

lemma loop_trace:
  "\<exists>new. trace (snd (waitForSession_loop sid (Some f) tmo itv st w)) = trace w @ new \<and>
         updates new = fetched new \<and>
         fetches new @ responses (snd (waitForSession_loop sid (Some f) tmo itv st w)) = responses w"
proof (induction "clock w" arbitrary: w)
  case Nil
  then show ?case
    by (simp add: waitForSession_loop.simps [of _ _ _ _ _ w] Date_now_def)
next
  case (Cons t cl)
  from Cons.hyps(2) have cw: "clock w = t # cl"
    by simp
  show ?case
  proof (cases "t - st < tmo")
    case False
    with cw show ?thesis
      by (simp add: loop_timeout [of w t cl])
  next
    case guard: True
    show ?thesis
    proof (cases "responses w")
      case Nil
      with cw guard show ?thesis
        by (simp add: waitForSession_loop.simps [of _ _ _ _ _ w] Date_now_def getSessionStatus_def)
    next
      case (Cons r rs)
      show ?thesis
      proof (cases r)
        case (Inl e)
        with cw guard Cons show ?thesis
          by (simp add: loop_fetch_error [of w t cl st tmo e rs])
      next
        case (Inr s)
        show ?thesis
        proof (cases "f (updates (trace w)) s")
          case (Some e)
          with cw guard Cons Inr show ?thesis
            by (simp add: loop_observer_throws [of w t cl st tmo s rs f e])
        next
          case None
          let ?w3 = "w\<lparr>clock := cl, responses := rs,
                         trace := trace w @ Fetch sid (Inr s) # notify (Some f) s\<rparr>"
          have step: "waitForSession_loop sid (Some f) tmo itv st w =
              (if status s = ''completed'' \<or> status s = ''fetched'' then (Some (Inr s), ?w3)
               else if status s = ''failed'' \<or> status s = ''expired'' then
                 (Some (Inl (Error (''Session '' @ status s))), ?w3)
               else waitForSession_loop sid (Some f) tmo itv st (sleep itv ?w3))"
            using cw guard Cons Inr None
            by (simp add: loop_session [of w t cl st tmo s rs "Some f"] Let_def)
          show ?thesis
          proof (cases "non_terminal s")
            case False
            with step Cons Inr show ?thesis
              by (auto simp add: non_terminal_def notify_def)
          next
            case True
            have "cl = clock (sleep itv ?w3)"
              by (simp add: sleep_def)
            from Cons.hyps(1) [OF this] obtain new where
              new: "trace (snd (waitForSession_loop sid (Some f) tmo itv st (sleep itv ?w3))) =
                      trace (sleep itv ?w3) @ new"
                "updates new = fetched new"
                "fetches new @ responses (snd (waitForSession_loop sid (Some f) tmo itv st (sleep itv ?w3))) =
                   responses (sleep itv ?w3)"
              by blast
            from True step have eq: "waitForSession_loop sid (Some f) tmo itv st w =
                waitForSession_loop sid (Some f) tmo itv st (sleep itv ?w3)"
              by (simp add: non_terminal_def)
            have "trace (snd (waitForSession_loop sid (Some f) tmo itv st w)) =
                    trace w @ (Fetch sid (Inr s) # Update s # Sleep itv # new)"
              using new(1) by (simp add: eq sleep_def notify_def)
            moreover have "updates (Fetch sid (Inr s) # Update s # Sleep itv # new) =
                fetched (Fetch sid (Inr s) # Update s # Sleep itv # new)"
              using new(2) by simp
            moreover have "fetches (Fetch sid (Inr s) # Update s # Sleep itv # new) @
                responses (snd (waitForSession_loop sid (Some f) tmo itv st w)) = responses w"
              using new(3) Cons Inr by (simp add: eq sleep_def)
            ultimately show ?thesis
              by blast
          qed
        qed
      qed
    qed
  qed
qed

lemma loop_resolves_terminal:
  "fst (waitForSession_loop sid cb tmo itv st w) = Some (Inr s) \<Longrightarrow>
     status s = ''completed'' \<or> status s = ''fetched''"
proof (induction "clock w" arbitrary: w)
  case Nil
  then show ?case
    by (simp add: waitForSession_loop.simps [of _ _ _ _ _ w] Date_now_def)
next
  case (Cons t cl)
  from Cons.hyps(2) have cw: "clock w = t # cl"
    by simp
  show ?case
  proof (cases "t - st < tmo")
    case False
    with cw Cons.prems show ?thesis
      by (simp add: loop_timeout [of w t cl])
  next
    case guard: True
    show ?thesis
    proof (cases "responses w")
      case Nil
      with cw guard Cons.prems show ?thesis
        by (simp add: waitForSession_loop.simps [of _ _ _ _ _ w] Date_now_def getSessionStatus_def)
    next
      case (Cons r rs)
      show ?thesis
      proof (cases r)
        case (Inl e)
        with cw guard Cons Cons.prems show ?thesis
          by (simp add: loop_fetch_error [of w t cl st tmo e rs])
      next
        case (Inr x)
        define w2 where "w2 = w\<lparr>clock := cl, responses := rs, trace := trace w @ [Fetch sid (Inr x)]\<rparr>"
        obtain thrown w3 where call: "call_onUpdate cb x w2 = (thrown, w3)"
          by (cases "call_onUpdate cb x w2")
        then have cw3: "clock w3 = cl"
          by (auto simp add: call_onUpdate_def w2_def split: option.splits)
        have step: "waitForSession_loop sid cb tmo itv st w =
            (case thrown of
               Some e \<Rightarrow> (Some (Inl e), w3)
             | None \<Rightarrow>
                 if status x = ''completed'' \<or> status x = ''fetched'' then (Some (Inr x), w3)
                 else if status x = ''failed'' \<or> status x = ''expired'' then
                   (Some (Inl (Error (''Session '' @ status x))), w3)
                 else waitForSession_loop sid cb tmo itv st (sleep itv w3))"
          using cw guard Cons Inr call
          by (simp add: waitForSession_loop.simps [of sid cb tmo itv st w] Date_now_def
              getSessionStatus_def w2_def)
        show ?thesis
        proof (cases thrown)
          case (Some e)
          with step Cons.prems show ?thesis
            by simp
        next
          case None
          have "cl = clock (sleep itv w3)"
            by (simp add: sleep_def cw3)
          note ih = Cons.hyps(1) [OF this]
          from None step Cons.prems ih show ?thesis
            by (auto split: if_splits)
        qed
      qed
    qed
  qed
qed

lemma waitForSession_resolves_terminal:
  "fst (waitForSession sid options w) = Some (Inr s) \<Longrightarrow>
     status s = ''completed'' \<or> status s = ''fetched''"
  by (cases "clock w")
     (auto simp add: waitForSession_def Date_now_def dest: loop_resolves_terminal)

section \<open>Claims about waitForSession\<close>

text \<open>
  C1, the claim as stated fails: the first Session fetched has status \<^verbatim>\<open>fetched\<close>,
  well within the timeout, and the observer throws when it is called with it; the
  poll rejects with the observer's error instead of resolving with that Session.
\<close>

theorem terminal_session_counterexample:
  "fst (waitForSession ''4f2a''
          \<lparr>onUpdate = Some failing_observer, timeout = None, interval = None\<rparr>
          \<lparr>clock = [0, 1], responses = [Inr (sample_session ''fetched'')], trace = []\<rparr>) =
     Some (Inl (Error ''render failed'')) \<and>
   fetches (trace (snd (waitForSession ''4f2a''
          \<lparr>onUpdate = Some failing_observer, timeout = None, interval = None\<rparr>
          \<lparr>clock = [0, 1], responses = [Inr (sample_session ''fetched'')], trace = []\<rparr>))) =
     [Inr (sample_session ''fetched'')]"
  using poll_observer_throws
    [where w = "\<lparr>clock = [0, 1], responses = [Inr (sample_session ''fetched'')], trace = []\<rparr>"
       and start = 0 and ts = "[1]" and cl = "[]" and pre = "[]"
       and s = "sample_session ''fetched''" and rs = "[]"
       and f = failing_observer and e = "Error ''render failed''" and sid = "''4f2a''"
       and options = "\<lparr>onUpdate = Some failing_observer, timeout = None, interval = None\<rparr>"]
  by (simp add: timeout_ms_def failing_observer_def)

text \<open>
  C1, amended. When the fetched Sessions are non-terminal up to a first terminal one
  whose status is \<^verbatim>\<open>completed\<close> or \<^verbatim>\<open>fetched\<close>, every reading of the clock at the
  top of the loop up to that fetch is within the timeout, and the observer (if there
  is one) throws at none of its calls, the one with the terminal Session included,
  then \<^verbatim>\<open>waitForSession\<close> resolves with that very Session; the fetches it issued
  are those of the sequence up to and including the terminal one, and the rest of
  the script is left untouched. This is the only way to succeed: whenever
  \<^verbatim>\<open>waitForSession\<close> resolves, the Session it resolves with has status
  \<^verbatim>\<open>completed\<close> or \<^verbatim>\<open>fetched\<close>.
\<close>

theorem waitForSession_returns_terminal_session:
  assumes "clock w = start # ts @ cl" and "length ts = Suc (length pre)"
    and "\<forall>t\<in>set ts. t - start < timeout_ms options"
    and "responses w = map Inr pre @ Inr s # rs"
    and "\<forall>p\<in>set pre. non_terminal p"
    and "status s = ''completed'' \<or> status s = ''fetched''"
    and "quiet (onUpdate options) (updates (trace w)) (pre @ [s])"
  shows "fst (waitForSession sid options w) = Some (Inr s) \<and>
         fetches (trace (snd (waitForSession sid options w))) =
           fetches (trace w) @ map Inr pre @ [Inr s] \<and>
         responses (snd (waitForSession sid options w)) = rs \<and>
         (\<forall>w' s'. fst (waitForSession sid options w') = Some (Inr s') \<longrightarrow>
            status s' = ''completed'' \<or> status s' = ''fetched'')"
proof -
  from assms(6) have "\<not> non_terminal s"
    by (auto simp: non_terminal_def)
  from poll_settles [OF assms(1-5) assms(7) this, of sid] assms(6)
  have "fst (waitForSession sid options w) = Some (Inr s)"
    and "fetches (trace (snd (waitForSession sid options w))) =
           fetches (trace w) @ map Inr pre @ [Inr s]"
    and "responses (snd (waitForSession sid options w)) = rs"
    by (auto simp add: fetches_append fetches_rounds fetches_notify)
  moreover have "\<forall>w' s'. fst (waitForSession sid options w') = Some (Inr s') \<longrightarrow>
      status s' = ''completed'' \<or> status s' = ''fetched''"
    using waitForSession_resolves_terminal by blast
  ultimately show ?thesis
    by blast
qed

theorem waitForSession_returns_terminal_session_witness:
  "fst (waitForSession ''4f2a''
          \<lparr>onUpdate = Some badge_observer, timeout = Some 10000, interval = Some 10\<rparr>
          \<lparr>clock = [0, 1, 13, 25],
           responses = [Inr (sample_session ''pending''), Inr (sample_session ''processing''),
                        Inr verified_session],
           trace = []\<rparr>) = Some (Inr verified_session) \<and>
   fetches (trace (snd (waitForSession ''4f2a''
          \<lparr>onUpdate = Some badge_observer, timeout = Some 10000, interval = Some 10\<rparr>
          \<lparr>clock = [0, 1, 13, 25],
           responses = [Inr (sample_session ''pending''), Inr (sample_session ''processing''),
                        Inr verified_session],
           trace = []\<rparr>))) =
     [Inr (sample_session ''pending''), Inr (sample_session ''processing''), Inr verified_session]"
  using waitForSession_returns_terminal_session
    [where w = "\<lparr>clock = [0, 1, 13, 25],
           responses = [Inr (sample_session ''pending''), Inr (sample_session ''processing''),
                        Inr verified_session],
           trace = []\<rparr>"
       and start = 0 and ts = "[1, 13, 25]" and cl = "[]"
       and pre = "[sample_session ''pending'', sample_session ''processing'']"
       and s = verified_session and rs = "[]" and sid = "''4f2a''"
       and options = "\<lparr>onUpdate = Some badge_observer, timeout = Some 10000, interval = Some 10\<rparr>"]
  by (simp add: timeout_ms_def non_terminal_def sample_session_def verified_session_def
      badge_observer_def)

text \<open>
  C2, the claim as stated fails: the first Session fetched has status \<^verbatim>\<open>failed\<close>
  and the observer throws when it is called with it; the poll rejects with the
  observer's error, which does not carry the status, and not with
  \<^verbatim>\<open>Session failed\<close>.
\<close>

theorem failed_session_counterexample:
  "fst (waitForSession ''4f2a''
          \<lparr>onUpdate = Some failing_observer, timeout = None, interval = None\<rparr>
          \<lparr>clock = [0, 1], responses = [Inr (sample_session ''failed'')], trace = []\<rparr>) =
     Some (Inl (Error ''render failed'')) \<and>
   Error ''render failed'' \<noteq> Error (''Session '' @ status (sample_session ''failed''))"
  using poll_observer_throws
    [where w = "\<lparr>clock = [0, 1], responses = [Inr (sample_session ''failed'')], trace = []\<rparr>"
       and start = 0 and ts = "[1]" and cl = "[]" and pre = "[]"
       and s = "sample_session ''failed''" and rs = "[]"
       and f = failing_observer and e = "Error ''render failed''" and sid = "''4f2a''"
       and options = "\<lparr>onUpdate = Some failing_observer, timeout = None, interval = None\<rparr>"]
  by (simp add: timeout_ms_def failing_observer_def sample_session_def)

text \<open>
  C2, amended. When the fetched Sessions are non-terminal up to a first terminal one
  whose status is \<^verbatim>\<open>failed\<close> or \<^verbatim>\<open>expired\<close> (the loop guard holding at every
  iteration up to that fetch), and the observer (if there is one) throws at none of
  its calls, the one with the terminal Session included, \<^verbatim>\<open>waitForSession\<close>
  rejects with the error \<^verbatim>\<open>Session failed\<close> or \<^verbatim>\<open>Session expired\<close>, which carries
  that status and is not the timeout error; the last fetch issued is the one that
  delivered that status.
\<close>

theorem waitForSession_rejects_failed_session:
  assumes "clock w = start # ts @ cl" and "length ts = Suc (length pre)"
    and "\<forall>t\<in>set ts. t - start < timeout_ms options"
    and "responses w = map Inr pre @ Inr s # rs"
    and "\<forall>p\<in>set pre. non_terminal p"
    and "status s = ''failed'' \<or> status s = ''expired''"
    and "quiet (onUpdate options) (updates (trace w)) (pre @ [s])"
  shows "fst (waitForSession sid options w) = Some (Inl (Error (''Session '' @ status s))) \<and>
         fst (waitForSession sid options w) \<noteq> Some (Inl (Error ''Session timed out'')) \<and>
         fetches (trace (snd (waitForSession sid options w))) =
           fetches (trace w) @ map Inr pre @ [Inr s] \<and>
         responses (snd (waitForSession sid options w)) = rs"
proof -
  from assms(6) have "\<not> non_terminal s"
    by (auto simp: non_terminal_def)
  from poll_settles [OF assms(1-5) assms(7) this, of sid] assms(6) show ?thesis
    by (auto simp add: fetches_append fetches_rounds fetches_notify)
qed

theorem waitForSession_rejects_failed_session_witness:
  "fst (waitForSession ''4f2a''
          \<lparr>onUpdate = Some badge_observer, timeout = None, interval = None\<rparr>
          \<lparr>clock = [500, 501],
           responses = [Inr (sample_session ''expired''), Inr (sample_session ''pending'')],
           trace = []\<rparr>) = Some (Inl (Error ''Session expired'')) \<and>
   responses (snd (waitForSession ''4f2a''
          \<lparr>onUpdate = Some badge_observer, timeout = None, interval = None\<rparr>
          \<lparr>clock = [500, 501],
           responses = [Inr (sample_session ''expired''), Inr (sample_session ''pending'')],
           trace = []\<rparr>)) = [Inr (sample_session ''pending'')]"
  using waitForSession_rejects_failed_session
    [where w = "\<lparr>clock = [500, 501],
           responses = [Inr (sample_session ''expired''), Inr (sample_session ''pending'')],
           trace = []\<rparr>"
       and start = 500 and ts = "[501]" and cl = "[]" and pre = "[]"
       and s = "sample_session ''expired''" and rs = "[Inr (sample_session ''pending'')]"
       and sid = "''4f2a''"
       and options = "\<lparr>onUpdate = Some badge_observer, timeout = None, interval = None\<rparr>"]
  by (simp add: timeout_ms_def sample_session_def badge_observer_def)

text \<open>
  C3, the claim as stated fails: on the same script (a pending Session, then the
  completed one) the poll with an observer that throws rejects with the observer's
  error, and the poll with an observer that does not throw resolves with the completed
  Session.
\<close>

theorem observer_isolation_counterexample:
  "fst (waitForSession ''4f2a''
          \<lparr>onUpdate = Some failing_observer, timeout = None, interval = None\<rparr>
          \<lparr>clock = [0, 1, 1502],
           responses = [Inr (sample_session ''pending''), Inr verified_session],
           trace = []\<rparr>) = Some (Inl (Error ''render failed'')) \<and>
   fst (waitForSession ''4f2a''
          \<lparr>onUpdate = Some badge_observer, timeout = None, interval = None\<rparr>
          \<lparr>clock = [0, 1, 1502],
           responses = [Inr (sample_session ''pending''), Inr verified_session],
           trace = []\<rparr>) = Some (Inr verified_session)"
proof -
  let ?w = "\<lparr>clock = [0, 1, 1502],
           responses = [Inr (sample_session ''pending''), Inr verified_session],
           trace = []\<rparr>"
  have "waitForSession ''4f2a''
          \<lparr>onUpdate = Some failing_observer, timeout = None, interval = None\<rparr> ?w =
        (Some (Inl (Error ''render failed'')),
         \<lparr>clock = [1502], responses = [Inr verified_session],
          trace = [Fetch ''4f2a'' (Inr (sample_session ''pending'')),
                   Update (sample_session ''pending'')]\<rparr>)"
    using poll_observer_throws [where w = ?w and start = 0 and ts = "[1]" and cl = "[1502]"
        and pre = "[]" and s = "sample_session ''pending''" and rs = "[Inr verified_session]"
        and f = failing_observer and e = "Error ''render failed''" and sid = "''4f2a''"
        and options = "\<lparr>onUpdate = Some failing_observer, timeout = None, interval = None\<rparr>"]
    by (simp add: timeout_ms_def failing_observer_def)
  moreover have "waitForSession ''4f2a''
          \<lparr>onUpdate = Some badge_observer, timeout = None, interval = None\<rparr> ?w =
        (Some (Inr verified_session),
         \<lparr>clock = [], responses = [],
          trace = [Fetch ''4f2a'' (Inr (sample_session ''pending'')),
                   Update (sample_session ''pending''), Sleep 1500,
                   Fetch ''4f2a'' (Inr verified_session), Update verified_session]\<rparr>)"
    using poll_settles [where w = ?w and start = 0 and ts = "[1, 1502]" and cl = "[]"
        and pre = "[sample_session ''pending'']" and s = verified_session and rs = "[]"
        and sid = "''4f2a''"
        and options = "\<lparr>onUpdate = Some badge_observer, timeout = None, interval = None\<rparr>"]
    by (simp add: timeout_ms_def interval_ms_def badge_observer_def non_terminal_def
        sample_session_def verified_session_def notify_def)
  ultimately show ?thesis
    by simp
qed

text \<open>
  C3, amended. The observer is called inside the loop with no handler around the call:
  when it throws at some invocation (having returned normally at the earlier ones),
  \<^verbatim>\<open>waitForSession\<close> rejects with the observer's error, whatever the status of the
  Session just fetched, and the fetch that delivered that Session is the last one
  issued.
\<close>

theorem waitForSession_propagates_observer_error:
  assumes "clock w = start # ts @ cl" and "length ts = Suc (length pre)"
    and "\<forall>t\<in>set ts. t - start < timeout_ms options"
    and "responses w = map Inr pre @ Inr s # rs"
    and "\<forall>p\<in>set pre. non_terminal p"
    and "onUpdate options = Some f"
    and "quiet (Some f) (updates (trace w)) pre"
    and "f (updates (trace w) @ pre) s = Some e"
  shows "fst (waitForSession sid options w) = Some (Inl e) \<and>
         fetches (trace (snd (waitForSession sid options w))) =
           fetches (trace w) @ map Inr pre @ [Inr s] \<and>
         responses (snd (waitForSession sid options w)) = rs"
  using poll_observer_throws [OF assms, of sid]
  by (simp add: fetches_append fetches_rounds)

theorem waitForSession_propagates_observer_error_witness:
  "fst (waitForSession ''4f2a''
          \<lparr>onUpdate = Some failing_observer, timeout = None, interval = None\<rparr>
          \<lparr>clock = [0, 1], responses = [Inr verified_session], trace = []\<rparr>) =
     Some (Inl (Error ''render failed''))"
  using waitForSession_propagates_observer_error
    [where w = "\<lparr>clock = [0, 1], responses = [Inr verified_session], trace = []\<rparr>"
       and start = 0 and ts = "[1]" and cl = "[]" and pre = "[]" and s = verified_session
       and rs = "[]" and f = failing_observer and e = "Error ''render failed''"
       and sid = "''4f2a''"
       and options = "\<lparr>onUpdate = Some failing_observer, timeout = None, interval = None\<rparr>"]
  by (simp add: timeout_ms_def failing_observer_def)

text \<open>
  C4. When every Session fetched is non-terminal (the observer not throwing) and a
  reading of the clock at the top of the loop shows that the elapsed time has reached
  the timeout, \<^verbatim>\<open>waitForSession\<close> rejects with \<^verbatim>\<open>Session timed out\<close>; the fetches
  issued are those before that reading, and no response is consumed after it.
\<close>

theorem waitForSession_times_out:
  assumes "clock w = start # ts @ t # cl" and "length ts = length pre"
    and "\<forall>t\<in>set ts. t - start < timeout_ms options"
    and "timeout_ms options \<le> t - start"
    and "responses w = map Inr pre @ rs"
    and "\<forall>p\<in>set pre. non_terminal p"
    and "quiet (onUpdate options) (updates (trace w)) pre"
  shows "fst (waitForSession sid options w) = Some (Inl (Error ''Session timed out'')) \<and>
         fetches (trace (snd (waitForSession sid options w))) = fetches (trace w) @ map Inr pre \<and>
         responses (snd (waitForSession sid options w)) = rs"
  using poll_times_out [OF assms, of sid]
  by (simp add: fetches_append fetches_rounds)

theorem waitForSession_times_out_witness:
  "fst (waitForSession ''4f2a''
          \<lparr>onUpdate = None, timeout = Some 50, interval = Some 20\<rparr>
          \<lparr>clock = [100, 100, 121, 143, 165],
           responses = [Inr (sample_session ''pending''), Inr (sample_session ''pending''),
                        Inr (sample_session ''pending''), Inr (sample_session ''pending'')],
           trace = []\<rparr>) = Some (Inl (Error ''Session timed out'')) \<and>
   responses (snd (waitForSession ''4f2a''
          \<lparr>onUpdate = None, timeout = Some 50, interval = Some 20\<rparr>
          \<lparr>clock = [100, 100, 121, 143, 165],
           responses = [Inr (sample_session ''pending''), Inr (sample_session ''pending''),
                        Inr (sample_session ''pending''), Inr (sample_session ''pending'')],
           trace = []\<rparr>)) = [Inr (sample_session ''pending'')]"
  using waitForSession_times_out
    [where w = "\<lparr>clock = [100, 100, 121, 143, 165],
           responses = [Inr (sample_session ''pending''), Inr (sample_session ''pending''),
                        Inr (sample_session ''pending''), Inr (sample_session ''pending'')],
           trace = []\<rparr>"
       and start = 100 and ts = "[100, 121, 143]" and t = 165 and cl = "[]"
       and pre = "[sample_session ''pending'', sample_session ''pending'', sample_session ''pending'']"
       and rs = "[Inr (sample_session ''pending'')]" and sid = "''4f2a''"
       and options = "\<lparr>onUpdate = None, timeout = Some 50, interval = Some 20\<rparr>"]
  by (simp add: timeout_ms_def non_terminal_def sample_session_def)

text \<open>
  C5, the claim as stated fails: with a timeout of zero and a clock that stands still,
  \<^verbatim>\<open>waitForSession\<close> rejects with \<^verbatim>\<open>Session timed out\<close> without having issued a
  single fetch, although a response was ready.
\<close>

theorem zero_timeout_counterexample:
  "fst (waitForSession ''4f2a''
          \<lparr>onUpdate = None, timeout = Some 0, interval = None\<rparr>
          \<lparr>clock = [1000, 1000], responses = [Inr (sample_session ''pending'')], trace = []\<rparr>) =
     Some (Inl (Error ''Session timed out'')) \<and>
   fetches (trace (snd (waitForSession ''4f2a''
          \<lparr>onUpdate = None, timeout = Some 0, interval = None\<rparr>
          \<lparr>clock = [1000, 1000], responses = [Inr (sample_session ''pending'')], trace = []\<rparr>))) = []"
  using poll_times_out
    [where w = "\<lparr>clock = [1000, 1000], responses = [Inr (sample_session ''pending'')], trace = []\<rparr>"
       and start = 1000 and ts = "[]" and t = 1000 and cl = "[]" and pre = "[]"
       and rs = "[Inr (sample_session ''pending'')]" and sid = "''4f2a''"
       and options = "\<lparr>onUpdate = None, timeout = Some 0, interval = None\<rparr>"]
  by (simp add: timeout_ms_def)

text \<open>
  C5, amended. A timeout of zero is legal. The loop tests the elapsed time before the
  first fetch, so when the first reading at the top of the loop is not earlier than
  \<^verbatim>\<open>startTime\<close>, \<^verbatim>\<open>waitForSession\<close> rejects with \<^verbatim>\<open>Session timed out\<close> at once:
  no fetch is issued, the observer is not called, there is no sleep.
\<close>

theorem waitForSession_zero_timeout:
  assumes "timeout options = Some 0" and "clock w = start # t # cl" and "start \<le> t"
  shows "waitForSession sid options w = (Some (Inl (Error ''Session timed out'')), w\<lparr>clock := cl\<rparr>)"
proof -
  from assms(1) have "timeout_ms options = 0"
    by (simp add: timeout_ms_def)
  with assms(2,3) show ?thesis
    by (simp add: waitForSession_def Date_now_def loop_timeout [of _ t cl])
qed

theorem waitForSession_zero_timeout_witness:
  "waitForSession ''4f2a'' \<lparr>onUpdate = Some badge_observer, timeout = Some 0, interval = Some 0\<rparr>
     \<lparr>clock = [7, 7, 8], responses = [Inr verified_session], trace = []\<rparr> =
   (Some (Inl (Error ''Session timed out'')),
    \<lparr>clock = [8], responses = [Inr verified_session], trace = []\<rparr>)"
  using waitForSession_zero_timeout
    [where w = "\<lparr>clock = [7, 7, 8], responses = [Inr verified_session], trace = []\<rparr>"
       and start = 7 and t = 7 and cl = "[8]" and sid = "''4f2a''"
       and options = "\<lparr>onUpdate = Some badge_observer, timeout = Some 0, interval = Some 0\<rparr>"]
  by simp

text \<open>
  C6. When a status fetch throws (after non-terminal Sessions, the loop guard holding
  at every iteration up to that fetch, the observer not throwing), \<^verbatim>\<open>waitForSession\<close>
  rejects with that very error; the failed fetch is the last fetch issued (it is not
  retried) and the rest of the script is left untouched.
\<close>

theorem waitForSession_propagates_fetch_error:
  assumes "clock w = start # ts @ cl" and "length ts = Suc (length pre)"
    and "\<forall>t\<in>set ts. t - start < timeout_ms options"
    and "responses w = map Inr pre @ Inl e # rs"
    and "\<forall>p\<in>set pre. non_terminal p"
    and "quiet (onUpdate options) (updates (trace w)) pre"
  shows "fst (waitForSession sid options w) = Some (Inl e) \<and>
         fetches (trace (snd (waitForSession sid options w))) =
           fetches (trace w) @ map Inr pre @ [Inl e] \<and>
         updates (trace (snd (waitForSession sid options w))) =
           updates (trace w) @ updates (rounds sid (onUpdate options) (interval_ms options) pre) \<and>
         responses (snd (waitForSession sid options w)) = rs"
  using poll_fetch_error [OF assms, of sid]
  by (simp add: fetches_append fetches_rounds updates_append)

theorem waitForSession_propagates_fetch_error_witness:
  "fst (waitForSession ''4f2a''
          \<lparr>onUpdate = Some badge_observer, timeout = None, interval = None\<rparr>
          \<lparr>clock = [0, 2, 1505],
           responses = [Inr (sample_session ''pending''), Inl (Error ''Failed to get session''),
                        Inr verified_session],
           trace = []\<rparr>) = Some (Inl (Error ''Failed to get session'')) \<and>
   updates (trace (snd (waitForSession ''4f2a''
          \<lparr>onUpdate = Some badge_observer, timeout = None, interval = None\<rparr>
          \<lparr>clock = [0, 2, 1505],
           responses = [Inr (sample_session ''pending''), Inl (Error ''Failed to get session''),
                        Inr verified_session],
           trace = []\<rparr>))) = [sample_session ''pending'']"
  using waitForSession_propagates_fetch_error
    [where w = "\<lparr>clock = [0, 2, 1505],
           responses = [Inr (sample_session ''pending''), Inl (Error ''Failed to get session''),
                        Inr verified_session],
           trace = []\<rparr>"
       and start = 0 and ts = "[2, 1505]" and cl = "[]" and pre = "[sample_session ''pending'']"
       and e = "Error ''Failed to get session''" and rs = "[Inr verified_session]"
       and sid = "''4f2a''"
       and options = "\<lparr>onUpdate = Some badge_observer, timeout = None, interval = None\<rparr>"]
  by (simp add: timeout_ms_def non_terminal_def sample_session_def badge_observer_def notify_def)

text \<open>
  C7. When an observer is given, the events that a poll adds to the trace contain one
  call of the observer for each fetch that delivered a Session, with that Session, in
  the order of the fetches; and the fetches of the poll are the responses that the poll
  consumed from the script, in order.
\<close>

theorem observer_called_once_per_fetch:
  assumes "onUpdate options = Some f"
  shows "\<exists>new. trace (snd (waitForSession sid options w)) = trace w @ new \<and>
           updates new = fetched new \<and>
           fetches new @ responses (snd (waitForSession sid options w)) = responses w"
proof (cases "clock w")
  case Nil
  then show ?thesis
    by (simp add: waitForSession_def Date_now_def)
next
  case (Cons start cl)
  then have "waitForSession sid options w =
      waitForSession_loop sid (Some f) (timeout_ms options) (interval_ms options) start
        (w\<lparr>clock := cl\<rparr>)"
    using assms by (simp add: waitForSession_def Date_now_def)
  with loop_trace [of sid f "timeout_ms options" "interval_ms options" start "w\<lparr>clock := cl\<rparr>"]
  show ?thesis
    by simp
qed

theorem observer_called_once_per_fetch_witness:
  "\<exists>new. trace (snd (waitForSession ''4f2a''
          \<lparr>onUpdate = Some badge_observer, timeout = Some 10000, interval = Some 10\<rparr>
          \<lparr>clock = [0, 1, 13, 25],
           responses = [Inr (sample_session ''pending''), Inr (sample_session ''processing''),
                        Inr verified_session],
           trace = []\<rparr>)) = [] @ new \<and>
     updates new = fetched new \<and>
     fetches new @ responses (snd (waitForSession ''4f2a''
          \<lparr>onUpdate = Some badge_observer, timeout = Some 10000, interval = Some 10\<rparr>
          \<lparr>clock = [0, 1, 13, 25],
           responses = [Inr (sample_session ''pending''), Inr (sample_session ''processing''),
                        Inr verified_session],
           trace = []\<rparr>)) =
       [Inr (sample_session ''pending''), Inr (sample_session ''processing''), Inr verified_session]"
  using observer_called_once_per_fetch
    [where options = "\<lparr>onUpdate = Some badge_observer, timeout = Some 10000, interval = Some 10\<rparr>"
       and f = badge_observer and sid = "''4f2a''"
       and w = "\<lparr>clock = [0, 1, 13, 25],
           responses = [Inr (sample_session ''pending''), Inr (sample_session ''processing''),
                        Inr verified_session],
           trace = []\<rparr>"]
  by simp

text \<open>
  C8, the claim as stated fails: a Session of status \<^verbatim>\<open>queued\<close> is fetched, then
  the completed one is ready, and the observer throws when it is called with a Session
  of unknown status; the poll rejects with the observer's error at the first Session,
  it does not go on, and the completed Session is never fetched.
\<close>

theorem unknown_status_counterexample:
  "fst (waitForSession ''4f2a''
          \<lparr>onUpdate = Some strict_observer, timeout = None, interval = None\<rparr>
          \<lparr>clock = [0, 3, 1510],
           responses = [Inr (sample_session ''queued''), Inr verified_session],
           trace = []\<rparr>) = Some (Inl (Error ''unexpected status queued'')) \<and>
   responses (snd (waitForSession ''4f2a''
          \<lparr>onUpdate = Some strict_observer, timeout = None, interval = None\<rparr>
          \<lparr>clock = [0, 3, 1510],
           responses = [Inr (sample_session ''queued''), Inr verified_session],
           trace = []\<rparr>)) = [Inr verified_session]"
  using poll_observer_throws
    [where w = "\<lparr>clock = [0, 3, 1510],
           responses = [Inr (sample_session ''queued''), Inr verified_session],
           trace = []\<rparr>"
       and start = 0 and ts = "[3]" and cl = "[1510]" and pre = "[]"
       and s = "sample_session ''queued''" and rs = "[Inr verified_session]"
       and f = strict_observer and e = "Error ''unexpected status queued''" and sid = "''4f2a''"
       and options = "\<lparr>onUpdate = Some strict_observer, timeout = None, interval = None\<rparr>"]
  by (simp add: timeout_ms_def strict_observer_def sample_session_def)

text \<open>
  C8, amended. A fetched Session whose status is none of the six known values is
  neither a success nor a failure for the loop, which raises no error of its own for
  it: after any number of such Sessions (the loop guard holding), provided the
  observer throws at none of its calls, a Session with status \<^verbatim>\<open>completed\<close> or
  \<^verbatim>\<open>fetched\<close> makes \<^verbatim>\<open>waitForSession\<close> resolve with it, and the observer has been
  called with the Sessions of unknown status and with the final one, in order.
\<close>

theorem unknown_status_keeps_polling:
  assumes "clock w = start # ts @ cl" and "length ts = Suc (length pre)"
    and "\<forall>t\<in>set ts. t - start < timeout_ms options"
    and "responses w = map Inr pre @ Inr s # rs"
    and "\<forall>p\<in>set pre. status p \<notin>
           {''pending'', ''processing'', ''completed'', ''fetched'', ''failed'', ''expired''}"
    and "status s = ''completed'' \<or> status s = ''fetched''"
    and "onUpdate options = Some f"
    and "quiet (Some f) (updates (trace w)) (pre @ [s])"
  shows "fst (waitForSession sid options w) = Some (Inr s) \<and>
         updates (trace (snd (waitForSession sid options w))) = updates (trace w) @ pre @ [s] \<and>
         fetches (trace (snd (waitForSession sid options w))) =
           fetches (trace w) @ map Inr pre @ [Inr s]"
proof -
  from assms(5) have nt: "\<forall>p\<in>set pre. non_terminal p"
    by (simp add: non_terminal_def)
  from assms(6) have t: "\<not> non_terminal s"
    by (auto simp: non_terminal_def)
  from assms(7,8) have q: "quiet (onUpdate options) (updates (trace w)) (pre @ [s])"
    by simp
  from poll_settles [OF assms(1-4) nt q t, of sid] assms(6,7) show ?thesis
    by (auto simp add: fetches_append fetches_rounds updates_append updates_rounds_Some notify_def)
qed

theorem unknown_status_keeps_polling_witness:
  "fst (waitForSession ''4f2a''
          \<lparr>onUpdate = Some badge_observer, timeout = None, interval = None\<rparr>
          \<lparr>clock = [0, 3, 1510],
           responses = [Inr (sample_session ''queued''), Inr verified_session],
           trace = []\<rparr>) = Some (Inr verified_session) \<and>
   updates (trace (snd (waitForSession ''4f2a''
          \<lparr>onUpdate = Some badge_observer, timeout = None, interval = None\<rparr>
          \<lparr>clock = [0, 3, 1510],
           responses = [Inr (sample_session ''queued''), Inr verified_session],
           trace = []\<rparr>))) = [sample_session ''queued'', verified_session]"
  using unknown_status_keeps_polling
    [where w = "\<lparr>clock = [0, 3, 1510],
           responses = [Inr (sample_session ''queued''), Inr verified_session],
           trace = []\<rparr>"
       and start = 0 and ts = "[3, 1510]" and cl = "[]" and pre = "[sample_session ''queued'']"
       and s = verified_session and rs = "[]" and f = badge_observer and sid = "''4f2a''"
       and options = "\<lparr>onUpdate = Some badge_observer, timeout = None, interval = None\<rparr>"]
  by (simp add: timeout_ms_def sample_session_def verified_session_def badge_observer_def)

section \<open>Claims about the session-status endpoint\<close>

lemma get_api_session_null:
  "get_api_session (Inr JNull) =
     \<lparr>code = 500,
      body = JObj [(''error'',
        JStr (''Cannot read properties of null (reading '' @ CHR 0x27 # ''status'' @ [CHR 0x27, CHR '')'']))]\<rparr>"
  by (simp add: get_api_session_def read_property_def send_error_def object_literal_def
      List.map_filter_simps)

text \<open>
  C9, the claim as stated fails: for a backend session that is completed and carries a
  presentation, the body sent by \<^verbatim>\<open>GET /api/session/:id\<close> has no
  \<^verbatim>\<open>presentation\<close> member.
\<close>

theorem session_endpoint_presentation_counterexample:
  "json_member (JObj [(''status'', JStr ''completed''),
                      (''presentation'', JObj [(''given_name'', JStr ''Ana'')])]) ''presentation'' =
     Some (JObj [(''given_name'', JStr ''Ana'')]) \<and>
   json_member (body (get_api_session (Inr
     (JObj [(''status'', JStr ''completed''),
            (''presentation'', JObj [(''given_name'', JStr ''Ana'')])])))) ''presentation'' = None"
  by (simp add: get_api_session_def read_property_def object_literal_def List.map_filter_simps)

text \<open>
  C9, amended. For every successful backend session lookup that yields a session
  object (any value but \<^verbatim>\<open>null\<close>, on which the handler's read of \<^verbatim>\<open>status\<close>
  throws and the answer is 500), \<^verbatim>\<open>GET /api/session/:id\<close> answers 200 with a JSON
  body that holds the \<^verbatim>\<open>status\<close> and the \<^verbatim>\<open>credentials\<close> of the backend session
  (each when it is defined) and nothing else: every other member of the backend
  session, \<^verbatim>\<open>presentation\<close> included, is left out.
\<close>

theorem session_endpoint_body:
  assumes "session \<noteq> JNull"
  shows "code (get_api_session (Inr session)) = 200 \<and>
         json_member (body (get_api_session (Inr session))) k =
           (if k = ''status'' \<or> k = ''credentials'' then json_member session k else None)"
proof (cases session)
  case (JObj props)
  then show ?thesis
    by (cases "map_of props ''status''"; cases "map_of props ''credentials''")
       (simp_all add: get_api_session_def read_property_def object_literal_def
          List.map_filter_simps)
qed (use assms in \<open>simp_all add: get_api_session_def read_property_def object_literal_def
      List.map_filter_simps\<close>)

theorem session_endpoint_body_witness:
  "code (get_api_session (Inr
     (JObj [(''status'', JStr ''fetched''), (''id'', JStr ''4f2a''),
            (''credentials'', JArr [JObj [(''tier'', JStr ''gold'')]])]))) = 200 \<and>
   json_member (body (get_api_session (Inr
     (JObj [(''status'', JStr ''fetched''), (''id'', JStr ''4f2a''),
            (''credentials'', JArr [JObj [(''tier'', JStr ''gold'')]])])))) ''credentials'' =
     Some (JArr [JObj [(''tier'', JStr ''gold'')]])"
  using session_endpoint_body
    [of "JObj [(''status'', JStr ''fetched''), (''id'', JStr ''4f2a''),
               (''credentials'', JArr [JObj [(''tier'', JStr ''gold'')]])]" "''credentials''"]
  by simp

section \<open>Lemmas about UTF-8\<close>

declare utf8_decoder.simps [simp del]

lemma of_char_char_of_small: "n < 256 \<Longrightarrow> of_char (char_of n) = (n :: nat)"
  by simp

lemma utf8_decoder_start:
  "utf8_decoder cp seen 0 lower upper (c # cs) =
     (let b = of_char c in
      if b \<le> 0x7F then b # utf8_decoder 0 0 0 0x80 0xBF cs
      else if 0xC2 \<le> b \<and> b \<le> 0xDF then utf8_decoder (b mod 32) 0 1 0x80 0xBF cs
      else if 0xE0 \<le> b \<and> b \<le> 0xEF then
        utf8_decoder (b mod 16) 0 2 (if b = 0xE0 then 0xA0 else 0x80)
          (if b = 0xED then 0x9F else 0xBF) cs
      else if 0xF0 \<le> b \<and> b \<le> 0xF4 then
        utf8_decoder (b mod 8) 0 3 (if b = 0xF0 then 0x90 else 0x80)
          (if b = 0xF4 then 0x8F else 0xBF) cs
      else 0xFFFD # utf8_decoder 0 0 0 0x80 0xBF cs)"
  by (simp add: utf8_decoder.simps(2) [of cp seen 0 lower upper c cs])

lemma utf8_decoder_continue:
  assumes "needed \<noteq> 0" and "lower \<le> of_char c" and "of_char c \<le> upper"
  shows "utf8_decoder cp seen needed lower upper (c # cs) =
     (if seen + 1 \<noteq> needed then
        utf8_decoder (cp * 64 + of_char c mod 64) (seen + 1) needed 0x80 0xBF cs
      else (cp * 64 + of_char c mod 64) # utf8_decoder 0 0 0 0x80 0xBF cs)"
  using assms
  by (simp add: utf8_decoder.simps(2) [of cp seen needed lower upper c cs] Let_def not_less)

lemma decode_1:
  assumes "cp \<le> 0x7F"
  shows "utf8_decoder 0 0 0 0x80 0xBF (utf8_bytes cp @ rest) = cp # utf8_decoder 0 0 0 0x80 0xBF rest"
  using assms by (simp add: utf8_bytes_def utf8_decoder_start)

lemma low_bits: "(x::nat) < n \<Longrightarrow> (k * n + x) mod n = x"
  by simp

lemma decode_2:
  assumes "0x7F < cp" and "cp \<le> 0x7FF"
  shows "utf8_decoder 0 0 0 0x80 0xBF (utf8_bytes cp @ rest) = cp # utf8_decoder 0 0 0 0x80 0xBF rest"
proof -
  define a where "a = cp div 64"
  define b where "b = cp mod 64"
  have cp: "cp = a * 64 + b"
    by (simp add: a_def b_def)
  have a: "2 \<le> a" "a < 32"
    using assms by (simp_all add: a_def less_eq_div_iff_mult_less_eq div_less_iff_less_mult)
  have b: "b < 64"
    by (simp add: b_def)
  have bytes: "utf8_bytes cp = [char_of (0xC0 + a), char_of (0x80 + b)]"
    using assms by (simp add: utf8_bytes_def a_def b_def)
  have b0: "of_char (char_of (0xC0 + a)) = 0xC0 + a"
    using a by (intro of_char_char_of_small) simp
  have b1: "of_char (char_of (0x80 + b)) = 0x80 + b"
    using b by (intro of_char_char_of_small) simp
  have m0: "(0xC0 + a) mod 32 = a"
    using a low_bits [of a 32 6] by simp
  have m1: "(0x80 + b) mod 64 = b"
    using b low_bits [of b 64 2] by simp
  have "utf8_decoder 0 0 0 0x80 0xBF (utf8_bytes cp @ rest) =
          utf8_decoder a 0 1 0x80 0xBF (char_of (0x80 + b) # rest)"
    using a by (simp add: bytes utf8_decoder_start b0 m0 del: of_char_of)
  also have "\<dots> = (a * 64 + b) # utf8_decoder 0 0 0 0x80 0xBF rest"
    using b by (simp add: utf8_decoder_continue b1 m1 del: of_char_of)
  finally show ?thesis
    by (simp add: cp)
qed

lemma window_low: "(x::nat) div 64 = 0 \<Longrightarrow> k \<le> x \<Longrightarrow> k \<le> x mod 64"
  by simp

lemma window_high: "(x::nat) div 64 = q \<Longrightarrow> x < q * 64 + k \<Longrightarrow> x mod 64 < k"
proof -
  assume q: "x div 64 = q" and "x < q * 64 + k"
  moreover have "x = x div 64 * 64 + x mod 64"
    by simp
  ultimately have "q * 64 + x mod 64 < q * 64 + k"
    by simp
  then show ?thesis
    by simp
qed

lemma decode_3:
  assumes "0x7FF < cp" and "cp \<le> 0xFFFF" and "\<not> (0xD800 \<le> cp \<and> cp \<le> 0xDFFF)"
  shows "utf8_decoder 0 0 0 0x80 0xBF (utf8_bytes cp @ rest) = cp # utf8_decoder 0 0 0 0x80 0xBF rest"
proof -
  define x where "x = cp div 64"
  define a where "a = x div 64"
  define b where "b = x mod 64"
  define c where "c = cp mod 64"
  have x: "32 \<le> x" "x < 1024"
    using assms(1,2) by (simp_all add: x_def less_eq_div_iff_mult_less_eq div_less_iff_less_mult)
  have cpx: "cp = x * 64 + c"
    by (simp add: x_def c_def)
  have xab: "x = a * 64 + b"
    by (simp add: a_def b_def)
  have a: "a < 16"
    using x(2) by (simp add: a_def div_less_iff_less_mult)
  have b: "b < 64" and c: "c < 64"
    by (simp_all add: b_def c_def)
  have lo: "32 \<le> b" if "a = 0"
    using that x(1) unfolding a_def b_def by (rule window_low)
  have hi: "b < 32" if "a = 13"
  proof -
    from that have "x div 64 < 14"
      by (simp add: a_def)
    then have "x < 896"
      by (simp add: div_less_iff_less_mult)
    then have "cp \<le> 0xDFFF"
      using c by (simp add: cpx)
    with assms(3) have "cp < 0xD800"
      by simp
    then have "x < 864"
      by (simp add: x_def div_less_iff_less_mult)
    with that show ?thesis
      unfolding a_def b_def by (intro window_high [of x 13]) simp_all
  qed
  have "cp div (64 * 64) = cp div 64 div 64"
    by (rule div_mult2_eq)
  then have d0: "cp div 4096 = a"
    by (simp add: a_def x_def)
  have d1: "cp div 64 mod 64 = b"
    by (simp add: b_def x_def)
  have bytes: "utf8_bytes cp = [char_of (0xE0 + a), char_of (0x80 + b), char_of (0x80 + c)]"
    using assms(1,2) by (simp add: utf8_bytes_def d0 d1 c_def)
  have b0: "of_char (char_of (0xE0 + a)) = 0xE0 + a"
    using a by (intro of_char_char_of_small) simp
  have b1: "of_char (char_of (0x80 + b)) = 0x80 + b"
    using b by (intro of_char_char_of_small) simp
  have b2: "of_char (char_of (0x80 + c)) = 0x80 + c"
    using c by (intro of_char_char_of_small) simp
  have m0: "(0xE0 + a) mod 16 = a"
    using a low_bits [of a 16 14] by simp
  have m1: "(0x80 + b) mod 64 = b"
    using b low_bits [of b 64 2] by simp
  have m2: "(0x80 + c) mod 64 = c"
    using c low_bits [of c 64 2] by simp
  have "utf8_decoder 0 0 0 0x80 0xBF (utf8_bytes cp @ rest) =
          utf8_decoder a 0 2 (if a = 0 then 0xA0 else 0x80) (if a = 13 then 0x9F else 0xBF)
            (char_of (0x80 + b) # char_of (0x80 + c) # rest)"
    using a by (simp add: bytes utf8_decoder_start b0 m0 del: of_char_of)
  also have "\<dots> = utf8_decoder (a * 64 + b) 1 2 0x80 0xBF (char_of (0x80 + c) # rest)"
    using b lo hi by (subst utf8_decoder_continue) (auto simp add: b1 m1 simp del: of_char_of)
  also have "\<dots> = ((a * 64 + b) * 64 + c) # utf8_decoder 0 0 0 0x80 0xBF rest"
    using c by (subst utf8_decoder_continue) (auto simp add: b2 m2 simp del: of_char_of)
  finally show ?thesis
    by (simp add: cpx xab)
qed

lemma decode_4:
  assumes "0xFFFF < cp" and "cp < 0x110000"
  shows "utf8_decoder 0 0 0 0x80 0xBF (utf8_bytes cp @ rest) = cp # utf8_decoder 0 0 0 0x80 0xBF rest"
proof -
  define x where "x = cp div 64"
  define y where "y = x div 64"
  define a where "a = y div 64"
  define b where "b = y mod 64"
  define c where "c = x mod 64"
  define d where "d = cp mod 64"
  have x: "1024 \<le> x" "x < 17408"
    using assms by (simp_all add: x_def less_eq_div_iff_mult_less_eq div_less_iff_less_mult)
  have y: "16 \<le> y" "y < 272"
    using x by (simp_all add: y_def less_eq_div_iff_mult_less_eq div_less_iff_less_mult)
  have cpx: "cp = x * 64 + d"
    by (simp add: x_def d_def)
  have xy: "x = y * 64 + c"
    by (simp add: y_def c_def)
  have yab: "y = a * 64 + b"
    by (simp add: a_def b_def)
  have a: "a < 5"
    using y(2) by (simp add: a_def div_less_iff_less_mult)
  have b: "b < 64" and c: "c < 64" and d: "d < 64"
    by (simp_all add: b_def c_def d_def)
  have lo: "16 \<le> b" if "a = 0"
    using that y(1) unfolding a_def b_def by (rule window_low)
  have hi: "b < 16" if "a = 4"
    using that y(2) unfolding a_def b_def by (intro window_high [of y 4]) simp_all
  have "cp div (64 * 64) = cp div 64 div 64"
    by (rule div_mult2_eq)
  then have cy: "cp div 4096 = y"
    by (simp add: y_def x_def)
  have "cp div (4096 * 64) = cp div 4096 div 64"
    by (rule div_mult2_eq)
  then have d0: "cp div 262144 = a"
    by (simp add: cy a_def)
  have d1: "cp div 4096 mod 64 = b"
    by (simp add: cy b_def)
  have d2: "cp div 64 mod 64 = c"
    by (simp add: c_def x_def)
  have bytes: "utf8_bytes cp =
      [char_of (0xF0 + a), char_of (0x80 + b), char_of (0x80 + c), char_of (0x80 + d)]"
    using assms(1) by (simp add: utf8_bytes_def d0 d1 d2 d_def)
  have b0: "of_char (char_of (0xF0 + a)) = 0xF0 + a"
    using a by (intro of_char_char_of_small) simp
  have b1: "of_char (char_of (0x80 + b)) = 0x80 + b"
    using b by (intro of_char_char_of_small) simp
  have b2: "of_char (char_of (0x80 + c)) = 0x80 + c"
    using c by (intro of_char_char_of_small) simp
  have b3: "of_char (char_of (0x80 + d)) = 0x80 + d"
    using d by (intro of_char_char_of_small) simp
  have m0: "(0xF0 + a) mod 8 = a"
    using a low_bits [of a 8 30] by simp
  have m1: "(0x80 + b) mod 64 = b"
    using b low_bits [of b 64 2] by simp
  have m2: "(0x80 + c) mod 64 = c"
    using c low_bits [of c 64 2] by simp
  have m3: "(0x80 + d) mod 64 = d"
    using d low_bits [of d 64 2] by simp
  have "utf8_decoder 0 0 0 0x80 0xBF (utf8_bytes cp @ rest) =
          utf8_decoder a 0 3 (if a = 0 then 0x90 else 0x80) (if a = 4 then 0x8F else 0xBF)
            (char_of (0x80 + b) # char_of (0x80 + c) # char_of (0x80 + d) # rest)"
    using a by (simp add: bytes utf8_decoder_start b0 m0 del: of_char_of)
  also have "\<dots> = utf8_decoder (a * 64 + b) 1 3 0x80 0xBF
      (char_of (0x80 + c) # char_of (0x80 + d) # rest)"
    using b lo hi by (subst utf8_decoder_continue) (auto simp add: b1 m1 simp del: of_char_of)
  also have "\<dots> = utf8_decoder ((a * 64 + b) * 64 + c) 2 3 0x80 0xBF (char_of (0x80 + d) # rest)"
    using c by (subst utf8_decoder_continue) (auto simp add: b2 m2 numeral_2_eq_2 simp del: of_char_of)
  also have "\<dots> = (((a * 64 + b) * 64 + c) * 64 + d) # utf8_decoder 0 0 0 0x80 0xBF rest"
    using d by (subst utf8_decoder_continue) (auto simp add: b3 m3 simp del: of_char_of)
  finally show ?thesis
    by (simp add: cpx xy yab)
qed

lemma decode_scalar:
  assumes "scalar cp"
  shows "utf8_decoder 0 0 0 0x80 0xBF (utf8_bytes cp @ rest) = cp # utf8_decoder 0 0 0 0x80 0xBF rest"
proof -
  consider "cp \<le> 0x7F" | "0x7F < cp" "cp \<le> 0x7FF" | "0x7FF < cp" "cp \<le> 0xFFFF" | "0xFFFF < cp"
    by linarith
  then show ?thesis
  proof cases
    case 1
    then show ?thesis by (rule decode_1)
  next
    case 2
    then show ?thesis by (rule decode_2)
  next
    case 3
    with assms show ?thesis by (intro decode_3) (simp_all add: scalar_def)
  next
    case 4
    with assms show ?thesis by (intro decode_4) (simp_all add: scalar_def)
  qed
qed

lemma utf8_decode_encode:
  assumes "\<forall>cp\<in>set cps. scalar cp"
  shows "utf8_decode (utf8_encode cps) = cps"
  using assms
proof (induction cps)
  case Nil
  show ?case
    by (simp add: utf8_decode_def utf8_encode_def utf8_decoder.simps(1))
next
  case (Cons cp cps)
  then show ?case
    by (simp add: utf8_decode_def utf8_encode_def decode_scalar)
qed

section \<open>Lemmas about percent-encoding\<close>

lemma hex_value_hex_digit: "n < 16 \<Longrightarrow> hex_value (hex_digit n) = Some n"
  by (simp add: hex_value_def hex_digit_def Let_def)

lemma alphanumeric_hex_digit: "n < 16 \<Longrightarrow> alphanumeric (hex_digit n)"
  by (simp add: alphanumeric_def hex_digit_def Let_def)

lemma alphanumeric_codes:
  "alphanumeric c \<Longrightarrow>
     c \<noteq> CHR ''+'' \<and> c \<noteq> CHR ''%'' \<and> c \<noteq> CHR ''&'' \<and> c \<noteq> CHR ''='' \<and> c \<noteq> CHR ''#'' \<and>
     c \<noteq> CHR ''?'' \<and> c \<noteq> CHR '' '' \<and> \<not> special_query_set c"
  by (auto simp add: alphanumeric_def special_query_set_def Let_def)

lemma punctuation_codes:
  "c = CHR ''*'' \<or> c = CHR ''-'' \<or> c = CHR ''.'' \<or> c = CHR ''_'' \<or> c = CHR ''+'' \<or> c = CHR ''%'' \<Longrightarrow>
     c \<noteq> CHR ''&'' \<and> c \<noteq> CHR ''='' \<and> c \<noteq> CHR ''#'' \<and> \<not> special_query_set c"
  by (elim disjE) (simp_all add: special_query_set_def)

lemma safe_codes:
  assumes "safe c"
  shows "c \<noteq> CHR ''&'' \<and> c \<noteq> CHR ''='' \<and> c \<noteq> CHR ''#'' \<and> \<not> special_query_set c"
proof (cases "alphanumeric c")
  case True
  with alphanumeric_codes [of c] show ?thesis
    by blast
next
  case False
  with assms have "c = CHR ''*'' \<or> c = CHR ''-'' \<or> c = CHR ''.'' \<or> c = CHR ''_'' \<or> c = CHR ''+'' \<or> c = CHR ''%''"
    unfolding safe_def unreserved_def by blast
  then show ?thesis
    by (rule punctuation_codes)
qed

lemma unreserved_codes:
  assumes "unreserved c"
  shows "c \<noteq> CHR ''+'' \<and> c \<noteq> CHR ''%'' \<and> c \<noteq> CHR '' ''"
proof (cases "alphanumeric c")
  case True
  with alphanumeric_codes [of c] show ?thesis
    by blast
next
  case False
  with assms have "c = CHR ''*'' \<or> c = CHR ''-'' \<or> c = CHR ''.'' \<or> c = CHR ''_''"
    unfolding unreserved_def by blast
  then show ?thesis
    by (elim disjE) simp_all
qed

lemma hex_digits_of_byte:
  "alphanumeric (hex_digit (of_char b div 16))" "alphanumeric (hex_digit (of_char b mod 16))"
  by (rule alphanumeric_hex_digit, simp add: div_less_iff_less_mult)+

lemma safe_urlencoded_byte: "\<forall>c\<in>set (urlencoded_byte b). safe c"
  by (simp add: urlencoded_byte_def percent_encode_def safe_def unreserved_def hex_digits_of_byte)

lemma byte_split: "char_of (of_char b div 16 * 16 + of_char b mod 16 :: nat) = b"
  by simp

lemma percent_decode_byte:
  "percent_decode (map (\<lambda>c. if c = CHR ''+'' then CHR '' '' else c) (urlencoded_byte b @ rest)) =
     b # percent_decode (map (\<lambda>c. if c = CHR ''+'' then CHR '' '' else c) rest)"
proof (cases "b = CHR '' ''")
  case True
  then show ?thesis
    by (simp add: urlencoded_byte_def)
next
  case False
  show ?thesis
  proof (cases "unreserved b")
    case True
    with False unreserved_codes [of b] show ?thesis
      by (simp add: urlencoded_byte_def)
  next
    case unres: False
    have h: "of_char b div 16 < (16::nat)" and l: "of_char b mod 16 < (16::nat)"
      by (simp_all add: div_less_iff_less_mult)
    have "hex_digit (of_char b div 16) \<noteq> CHR ''+''" and "hex_digit (of_char b mod 16) \<noteq> CHR ''+''"
      using alphanumeric_codes alphanumeric_hex_digit h l by blast+
    with False unres show ?thesis
      by (simp add: urlencoded_byte_def percent_encode_def hex_value_hex_digit h l)
  qed
qed

lemma percent_decode_bytes:
  "percent_decode (map (\<lambda>c. if c = CHR ''+'' then CHR '' '' else c)
     (concat (map urlencoded_byte bs))) = bs"
proof (induction bs)
  case Nil
  show ?case by simp
next
  case (Cons b bs)
  then show ?case
    using percent_decode_byte [of b "concat (map urlencoded_byte bs)"] by simp
qed

lemma decode_component_urlencoded:
  "\<forall>cp\<in>set s. scalar cp \<Longrightarrow> decode_component (urlencoded_string s) = s"
  by (simp add: decode_component_def urlencoded_string_def percent_decode_bytes utf8_decode_encode)

lemma safe_urlencoded_string: "\<forall>c\<in>set (urlencoded_string s). safe c"
  using safe_urlencoded_byte by (auto simp add: urlencoded_string_def)

section \<open>Lemmas about UTF-16\<close>

lemma is_lead_unat: "is_lead c \<longleftrightarrow> 0xD800 \<le> unat c \<and> unat c \<le> 0xDBFF"
  by (simp add: is_lead_def word_le_nat_alt)

lemma is_trail_unat: "is_trail c \<longleftrightarrow> 0xDC00 \<le> unat c \<and> unat c \<le> 0xDFFF"
  by (simp add: is_trail_def word_le_nat_alt)

lemma unat_code_unit: "unat (c :: 16 word) < 65536"
  using unsigned_less [of c] by simp

lemma scalar_replacement: "scalar 0xFFFD"
  by (simp add: scalar_def)

lemma scalar_pair: "h < 1024 \<Longrightarrow> l < 1024 \<Longrightarrow> scalar (0x10000 + 0x400 * h + l)"
  by (simp add: scalar_def)

lemma scalar_unit: "\<not> is_lead c \<Longrightarrow> \<not> is_trail c \<Longrightarrow> scalar (unat c)"
  using unat_code_unit [of c] by (auto simp add: scalar_def is_lead_unat is_trail_unat)

lemma scalar_to_usv: "\<forall>cp\<in>set (to_usv s). scalar cp"
proof (induction s rule: to_usv.induct)
  case 1
  show ?case by simp
next
  case (2 c cs)
  show ?case
  proof (cases "is_lead c")
    case lead: True
    show ?thesis
    proof (cases cs)
      case Nil
      with lead show ?thesis
        by (simp add: scalar_replacement)
    next
      case (Cons d ds)
      show ?thesis
      proof (cases "is_trail d")
        case True
        with lead Cons "2.IH"(1) [of d ds] show ?thesis
          by (simp add: scalar_pair)
      next
        case False
        with lead Cons "2.IH"(2) [of d ds] show ?thesis
          by (simp add: scalar_replacement)
      qed
    qed
  next
    case False
    with "2.IH"(3,4) show ?thesis
      by (cases "is_trail c") (simp_all add: scalar_replacement scalar_unit)
  qed
qed

lemma window_1024:
  assumes "q * 1024 \<le> n" and "n < Suc q * 1024"
  shows "n mod 1024 + q * 1024 = (n::nat)"
proof -
  from assms have "n div 1024 = q"
    by (intro div_nat_eqI) (simp_all add: mult.commute)
  moreover have "n mod 1024 + n div 1024 * 1024 = n"
    by simp
  ultimately show ?thesis
    by simp
qed

lemma lead_window: "is_lead c \<Longrightarrow> unat c mod 1024 + 0xD800 = unat c"
  using window_1024 [of 54 "unat c"] by (simp add: is_lead_unat)

lemma trail_window: "is_trail c \<Longrightarrow> unat c mod 1024 + 0xDC00 = unat c"
  using window_1024 [of 55 "unat c"] by (simp add: is_trail_unat)

lemma utf16_units_pair:
  assumes "is_lead c" and "is_trail d"
  shows "utf16_units (0x10000 + 0x400 * (unat c mod 0x400) + unat d mod 0x400) = [c, d]"
proof -
  define h where "h = unat c mod 1024"
  define l where "l = unat d mod 1024"
  have l: "l < 1024"
    by (simp add: l_def)
  have hc: "h + 0xD800 = unat c" and ld: "l + 0xDC00 = unat d"
    using assms by (simp_all add: h_def l_def lead_window trail_window)
  have "(1024 * h + l) div 1024 = h" and "(1024 * h + l) mod 1024 = l"
    using l by simp_all
  then have "utf16_units (0x10000 + 0x400 * h + l) =
      [word_of_nat (h + 0xD800), word_of_nat (l + 0xDC00)]"
    by (simp add: utf16_units_def)
  then show ?thesis
    by (simp only: hc ld h_def [symmetric] l_def [symmetric]) simp
qed

lemma utf16_units_unit: "utf16_units (unat (c :: 16 word)) = [c]"
  using unat_code_unit [of c] by (simp add: utf16_units_def)

lemma from_usv_to_usv: "well_formed s \<Longrightarrow> from_usv (to_usv s) = s"
proof (induction s rule: to_usv.induct)
  case 1
  show ?case by (simp add: from_usv_def)
next
  case (2 c cs)
  show ?case
  proof (cases "is_lead c")
    case lead: True
    with "2.prems" obtain d ds where cs: "cs = d # ds" and d: "is_trail d" and wf: "well_formed ds"
      by (cases cs) auto
    from "2.IH"(1) [OF lead cs d wf] have "from_usv (to_usv ds) = ds" .
    with lead cs d show ?thesis
      by (simp add: from_usv_def utf16_units_pair)
  next
    case False
    with "2.prems" have nt: "\<not> is_trail c" and wf: "well_formed cs"
      by simp_all
    from "2.IH"(4) [OF False nt wf] have "from_usv (to_usv cs) = cs" .
    with False nt show ?thesis
      by (simp add: from_usv_def utf16_units_unit)
  qed
qed

section \<open>Lemmas about the redirect URL\<close>

lemma unreserved_ascii: "unreserved c \<Longrightarrow> (of_char c :: nat) \<le> 0x7F"
  by (auto simp add: unreserved_def alphanumeric_def Let_def)

lemma urlencoded_string_unreserved:
  "\<forall>c\<in>set cs. unreserved c \<Longrightarrow> urlencoded_string (usv cs) = cs"
proof (induction cs)
  case Nil
  show ?case
    by (simp add: urlencoded_string_def usv_def utf8_encode_def)
next
  case (Cons c cs)
  then have "unreserved c" and rest: "urlencoded_string (usv cs) = cs"
    by simp_all
  with unreserved_ascii [of c] unreserved_codes [of c] show ?case
    by (simp add: urlencoded_string_def usv_def utf8_encode_def utf8_bytes_def urlencoded_byte_def)
qed

lemma session_unreserved: "\<forall>c\<in>set ''session''. unreserved c"
  by (simp add: unreserved_def alphanumeric_def)

lemma session_scalar: "\<forall>cp\<in>set (usv ''session''). scalar cp"
  by (simp add: usv_def scalar_def)

lemma urlencoded_session: "urlencoded_string (usv ''session'') = ''session''"
  using session_unreserved by (rule urlencoded_string_unreserved)

lemma decode_session: "decode_component ''session'' = usv ''session''"
  using decode_component_urlencoded [OF session_scalar] by (simp only: urlencoded_session)

lemma buildRedirectUrl_eq:
  "buildRedirectUrl loc s =
     base loc @ ''?session='' @ urlencoded_string (to_usv s) @
     (case fragment loc of None \<Rightarrow> [] | Some f \<Rightarrow> CHR ''#'' # f)"
  by (simp add: buildRedirectUrl_def new_URL_def clear_search_def searchParams_set_def href_def
      urlencoded_session Let_def)

lemma query_encode_safe: "\<forall>c\<in>set q. \<not> special_query_set c \<Longrightarrow> query_encode q = q"
  by (induction q) (simp_all add: query_encode_def)

lemma split_on_absent: "sep \<notin> set xs \<Longrightarrow> split_on sep xs = [xs]"
  by (induction xs) auto

lemma session_query_chars:
  "\<forall>c\<in>set (''session='' @ urlencoded_string (to_usv s)).
      c \<noteq> CHR ''#'' \<and> c \<noteq> CHR ''&'' \<and> \<not> special_query_set c"
  using safe_urlencoded_string [of "to_usv s"] safe_codes
  by (auto simp add: special_query_set_def)

lemma parse_built_url:
  assumes "CHR ''?'' \<notin> set (base loc)" and "CHR ''#'' \<notin> set (base loc)"
  shows "parse_url (buildRedirectUrl loc s) =
           \<lparr>base = base loc, query = Some (''session='' @ urlencoded_string (to_usv s)),
            fragment = fragment loc\<rparr>"
proof -
  define q where "q = ''session='' @ urlencoded_string (to_usv s)"
  define f where "f = (case fragment loc of None \<Rightarrow> [] | Some f \<Rightarrow> CHR ''#'' # f)"
  define front where "front = base loc @ CHR ''?'' # q"
  have input: "buildRedirectUrl loc s = front @ f"
    by (simp add: buildRedirectUrl_eq front_def q_def f_def)
  have q: "\<forall>c\<in>set q. c \<noteq> CHR ''#'' \<and> \<not> special_query_set c"
    using session_query_chars [of s] by (simp add: q_def)
  have no_hash: "\<forall>c\<in>set front. c \<noteq> CHR ''#''"
    using assms(2) q by (auto simp add: front_def)
  have tw_f: "takeWhile (\<lambda>c. c \<noteq> CHR ''#'') f = []" and dw_f: "dropWhile (\<lambda>c. c \<noteq> CHR ''#'') f = f"
    by (simp_all add: f_def split: option.splits)
  have tw: "takeWhile (\<lambda>c. c \<noteq> CHR ''#'') (front @ f) = front"
    using no_hash by (simp add: takeWhile_append2 tw_f)
  have dw: "dropWhile (\<lambda>c. c \<noteq> CHR ''#'') (front @ f) = f"
    using no_hash by (simp add: dropWhile_append2 dw_f)
  have no_mark: "\<forall>c\<in>set (base loc). c \<noteq> CHR ''?''"
    using assms(1) by auto
  have twq: "takeWhile (\<lambda>c. c \<noteq> CHR ''?'') front = base loc"
    using no_mark by (simp add: front_def takeWhile_append2)
  have dwq: "dropWhile (\<lambda>c. c \<noteq> CHR ''?'') front = CHR ''?'' # q"
    using no_mark by (simp add: front_def dropWhile_append2)
  have qe: "query_encode q = q"
    using q by (intro query_encode_safe) simp
  have frag: "(if f = [] then None else Some (tl f)) = fragment loc"
    by (simp add: f_def split: option.splits)
  show ?thesis
    unfolding input parse_url_def Let_def tw dw twq dwq
    by (simp add: qe frag) (simp add: q_def)
qed

lemma params_of_session_query:
  "urlencoded_parse (''session='' @ urlencoded_string (to_usv s)) = [(usv ''session'', to_usv s)]"
proof -
  define e where "e = urlencoded_string (to_usv s)"
  have e: "\<forall>c\<in>set e. c \<noteq> CHR ''&''"
    using safe_urlencoded_string [of "to_usv s"] safe_codes by (auto simp add: e_def)
  then have "CHR ''&'' \<notin> set (''session='' @ e)"
    by auto
  then have split: "split_on CHR ''&'' (''session='' @ e) = [''session='' @ e]"
    by (rule split_on_absent)
  have name: "takeWhile (\<lambda>c. c \<noteq> CHR ''='') (''session='' @ e) = ''session''"
    by simp
  have val: "drop 1 (dropWhile (\<lambda>c. c \<noteq> CHR ''='') (''session='' @ e)) = e"
    by simp
  have "decode_component e = to_usv s"
    unfolding e_def using scalar_to_usv by (rule decode_component_urlencoded)
  then show ?thesis
    unfolding urlencoded_parse_def e_def [symmetric] split
    by (simp add: decode_session)
qed

lemma search_params_of_built_url:
  assumes "CHR ''?'' \<notin> set (base loc)" and "CHR ''#'' \<notin> set (base loc)"
  shows "new_URLSearchParams (search (parse_url (buildRedirectUrl loc s))) =
           [(usv ''session'', to_usv s)]"
  by (simp add: parse_built_url [OF assms] search_def new_URLSearchParams_def
      params_of_session_query del: append.simps)

lemma session_of_built_url:
  assumes "CHR ''?'' \<notin> set (base loc)" and "CHR ''#'' \<notin> set (base loc)"
  shows "getSessionFromUrl (parse_url (buildRedirectUrl loc s)) = Some (from_usv (to_usv s))"
  by (simp add: getSessionFromUrl_def search_params_of_built_url [OF assms])

section \<open>Claims about the redirect URL\<close>

text \<open>
  C10, the claim as stated fails: for the session id that consists of the single code
  unit \<^verbatim>\<open>0xD800\<close> (a lead surrogate with no trail surrogate, the JavaScript string
  \<^verbatim>\<open>'\uD800'\<close>), the URL built by \<^verbatim>\<open>buildRedirectUrl\<close> gives back the string
  \<^verbatim>\<open>'\uFFFD'\<close>, which is another string.
\<close>

theorem redirect_url_round_trip_counterexample:
  "getSessionFromUrl (parse_url (buildRedirectUrl
      \<lparr>base = ''https://playground.example/bank-onboarding/'', query = None, fragment = None\<rparr>
      [0xD800])) = Some [0xFFFD] \<and>
   [0xFFFD] \<noteq> [0xD800 :: 16 word]"
  using session_of_built_url
    [of "\<lparr>base = ''https://playground.example/bank-onboarding/'', query = None, fragment = None\<rparr>"
        "[0xD800]"]
  by (simp add: is_lead_def from_usv_def utf16_units_def)

text \<open>
  C10, amended. For every well-formed session id \<open>s\<close> (a JavaScript string in which no
  surrogate code unit stands alone) and every location (a URL record, whose part before
  the query holds no \<^verbatim>\<open>?\<close> and no \<^verbatim>\<open>#\<close>), reading the session with
  \<^verbatim>\<open>getSessionFromUrl\<close> at the address built by \<^verbatim>\<open>buildRedirectUrl\<close> gives exactly
  \<open>s\<close>, and the names of the query parameters of that address are \<^verbatim>\<open>session\<close> alone,
  whatever query the location had.
\<close>

theorem redirect_url_round_trip:
  assumes "well_formed s" and "CHR ''?'' \<notin> set (base loc)" and "CHR ''#'' \<notin> set (base loc)"
  shows "getSessionFromUrl (parse_url (buildRedirectUrl loc s)) = Some s \<and>
         map fst (new_URLSearchParams (search (parse_url (buildRedirectUrl loc s)))) =
           [usv ''session'']"
  using session_of_built_url [OF assms(2,3), of s] search_params_of_built_url [OF assms(2,3), of s]
    from_usv_to_usv [OF assms(1)]
  by simp

theorem redirect_url_round_trip_witness:
  "getSessionFromUrl (parse_url (buildRedirectUrl
      \<lparr>base = ''https://playground.example/bank-onboarding/'', query = Some ''lang=de&session=old'',
       fragment = Some ''top''\<rparr>
      [0x7B, 0x69, 0x64, 0x7D, 0x20, 0xE9, 0xD83D, 0xDE00])) =
     Some [0x7B, 0x69, 0x64, 0x7D, 0x20, 0xE9, 0xD83D, 0xDE00]"
  using redirect_url_round_trip
    [of "[0x7B, 0x69, 0x64, 0x7D, 0x20, 0xE9, 0xD83D, 0xDE00]"
        "\<lparr>base = ''https://playground.example/bank-onboarding/'',
          query = Some ''lang=de&session=old'', fragment = Some ''top''\<rparr>"]
  by (simp add: is_lead_def is_trail_def)

end
